theory Spec2Isabelle
  imports Complex_Main
begin

section \<open>Python values used by \<open>examples.py\<close>\<close>

text \<open>
  Python strings are modelled as \<open>string\<close>; a character outside ASCII is written as the
  bytes of its UTF-8 encoding. The program only concatenates and prints strings, so the
  encoding is never observed by the code itself.
\<close>

definition digit_chars :: string where
  "digit_chars = ''0123456789''"

text \<open>\<open>str(n)\<close> for a non-negative integer: its decimal digits.\<close>

fun str_nat :: "nat \<Rightarrow> string" where
  "str_nat n =
     (if n < 10 then [digit_chars ! n]
      else str_nat (n div 10) @ [digit_chars ! (n mod 10)])"

declare str_nat.simps [simp del]

text \<open>\<open>str(i)\<close> for any Python integer.\<close>

definition str_int :: "int \<Rightarrow> string" where
  "str_int i = (if i < 0 then ''-'' @ str_nat (nat (- i)) else str_nat (nat i))"

text \<open>\<open>sep.join(xs)\<close>.\<close>

fun py_join :: "string \<Rightarrow> string list \<Rightarrow> string" where
  "py_join sep [] = []"
| "py_join sep [x] = x"
| "py_join sep (x # y # ys) = x @ sep @ py_join sep (y # ys)"

text \<open>
  Exceptions that can travel through the program: the two classes named in the handler of
  the \<open>__main__\<close> block, each with its message (\<open>str(exc)\<close>), and the interpreter's
  \<open>NameError\<close> with the name that is not bound.
\<close>

datatype exn = KRDictException string | RequestException string | NameError string

section \<open>Example 1: \<open>pagination\<close> (lines 96--118)\<close>

text \<open>\<open>response.data\<close> of a search response.\<close>

record 'r search_data =
  total_results :: int
  page :: int
  per_page :: int
  results :: "'r list"

text \<open>
  The local variables of \<open>pagination\<close>, together with the two effects of the loop: the
  calls made to \<open>krdict.search\<close> (page and page size of each request, in order) and the
  lines printed.
\<close>

record 'r pagination_state =
  pg_page :: int
  pg_results :: "'r list"
  pg_has_next :: bool
  pg_total_results :: int
  pg_requests :: "(int \<times> int) list"
  pg_output :: "string list"

text \<open>
  \<open>krdict.search(query='...', page=p, per_page=n, raise_api_errors=True)\<close>: the external
  client, as a function of the requested page and page size. It returns the response data
  or raises. The loop never asks for the same page twice, so a function of the page number
  describes any sequence of responses.
\<close>

type_synonym 'r client = "int \<Rightarrow> int \<Rightarrow> exn + 'r search_data"

text \<open>The line printed at the end of each iteration (lines 115--116).\<close>

definition progress_line :: "nat \<Rightarrow> int \<Rightarrow> bool \<Rightarrow> string" where
  "progress_line n p has_next =
     ''Collected '' @ str_nat n @ '' results from page '' @ str_int p @ ''. ''
       @ (if has_next then ''Querying next page.'' else ''All results collected.'')"

text \<open>The line printed after the loop (line 118).\<close>

definition collected_line :: "nat \<Rightarrow> int \<Rightarrow> string" where
  "collected_line n tr =
     str_nat n @ '' results collected. Total results: '' @ str_int tr @ ''.''"

text \<open>The loop body after a successful fetch (lines 108--116).\<close>

definition pagination_body ::
  "'r pagination_state \<Rightarrow> 'r search_data \<Rightarrow> 'r pagination_state" where
  "pagination_body st d =
     (let tr = total_results d;
          pg = pg_page st + 1;
          rs = pg_results st @ results d;
          has_next = (per_page d * page d < tr)
      in st\<lparr>pg_page := pg, pg_results := rs, pg_has_next := has_next,
            pg_total_results := tr,
            pg_output := pg_output st @ [progress_line (length (results d)) (pg - 1) has_next]\<rparr>)"

text \<open>
  \<open>while has_next: ...\<close>. The loop need not end (a service may report ever more results),
  so it is a partial function: \<open>None\<close> is a run that never returns. A raised exception
  leaves the loop at once, with the state reached when it was raised.
\<close>

partial_function (option) pagination_loop ::
  "int \<Rightarrow> 'r client \<Rightarrow> 'r pagination_state
     \<Rightarrow> (exn \<times> 'r pagination_state + 'r pagination_state) option" where
  "pagination_loop pp search st =
     (if pg_has_next st then
        (let st1 = st\<lparr>pg_requests := pg_requests st @ [(pg_page st, pp)]\<rparr>
         in case search (pg_page st) pp of
              Inl e \<Rightarrow> Some (Inl (e, st1))
            | Inr d \<Rightarrow> pagination_loop pp search (pagination_body st1 d))
      else Some (Inr st))"

definition pagination_init :: "'r pagination_state" where
  "pagination_init =
     \<lparr>pg_page = 1, pg_results = [], pg_has_next = True, pg_total_results = 0,
      pg_requests = [], pg_output = []\<rparr>"

text \<open>The function with the page size it requests as a parameter.\<close>

definition pagination_with ::
  "int \<Rightarrow> 'r client \<Rightarrow> (exn \<times> 'r pagination_state + 'r pagination_state) option" where
  "pagination_with pp search =
     (case pagination_loop pp search pagination_init of
        None \<Rightarrow> None
      | Some (Inl e) \<Rightarrow> Some (Inl e)
      | Some (Inr st) \<Rightarrow>
          Some (Inr (st\<lparr>pg_output := pg_output st
                      @ [collected_line (length (pg_results st)) (pg_total_results st)]\<rparr>)))"

text \<open>\<open>pagination\<close> as written: every request asks for 20 results per page.\<close>

definition pagination ::
  "'r client \<Rightarrow> (exn \<times> 'r pagination_state + 'r pagination_state) option" where
  "pagination search = pagination_with 20 search"

section \<open>Responses shown by the formatter\<close>

text \<open>
  Characters the formatter prints that are outside ASCII, as UTF-8 bytes: the corner
  brackets around the part of speech (U+300C, U+300D), the bullet (U+2022) and the
  pointer (U+25BA).
\<close>

definition lbracket :: string where
  "lbracket = [CHR 0xE3, CHR 0x80, CHR 0x8C]"

definition rbracket :: string where
  "rbracket = [CHR 0xE3, CHR 0x80, CHR 0x8D]"

definition bullet :: string where
  "bullet = [CHR 0xE2, CHR 0x80, CHR 0xA2]"

definition pointer :: string where
  "pointer = [CHR 0xE2, CHR 0x96, CHR 0xBA]"

definition newline :: string where
  "newline = [CHR 0x0A]"

text \<open>
  An attribute the code reads without a guard is a field of the record; one it tests with
  \<open>'name' in obj\<close> first is an optional field.
\<close>

record original_language_info =
  oli_original_language :: string

record pronunciation_info =
  pi_pronunciation :: string
  pi_url :: "string option"

record view_translation =
  vt_word :: "string option"
  vt_definition :: string

record example_info =
  ei_example :: string

record multimedia_info =
  mi_url :: string
  mi_content_urls :: "string list option"
  mi_type :: string

record definition_info =
  di_definition :: string
  di_translations :: "view_translation list"
  di_example_info :: "example_info list"
  di_multimedia_info :: "multimedia_info list"

record word_info =
  wi_word :: string
  wi_part_of_speech :: string
  wi_original_language_info :: "original_language_info list"
  wi_pronunciation_info :: "pronunciation_info list"
  wi_definition_info :: "definition_info list"

record view_result =
  vr_word_info :: word_info

text \<open>
  \<open>response.data\<close> of a view or scraped view response. Like the data of every response
  it carries \<open>total_results\<close>, which line 79 reads without a guard.
\<close>

record view_data =
  vd_url :: string
  vd_total_results :: int
  vd_results :: "view_result list"

text \<open>Entries of search responses, as the list renderer reads them.\<close>

record translation =
  t_word :: string
  t_definition :: string

record dfn =
  dfn_definition :: string
  dfn_translations :: "translation list"

record word_result =
  wr_word :: string
  wr_origin :: "string option"
  wr_definitions :: "dfn list"

record definition_result =
  dr_word :: string
  dr_origin :: "string option"
  dr_definition_info :: dfn

text \<open>
  A response: its class decides the shape of its data (\<open>DefinitionResponse\<close> is the class
  tested by \<open>isinstance\<close>), and it carries its \<open>response_type\<close> tag.
\<close>

datatype response =
    SearchResponse string "word_result search_data"
  | DefinitionResponse string "definition_result search_data"
  | ViewResponse string view_data

fun response_type :: "response \<Rightarrow> string" where
  "response_type (SearchResponse t d) = t"
| "response_type (DefinitionResponse t d) = t"
| "response_type (ViewResponse t d) = t"


text \<open>\<open>len(response.data.results)\<close>.\<close>

fun num_results :: "response \<Rightarrow> nat" where
  "num_results (SearchResponse t d) = length (results d)"
| "num_results (DefinitionResponse t d) = length (results d)"
| "num_results (ViewResponse t d) = length (vd_results d)"

text \<open>
  What a renderer leaves behind: the texts printed, one per \<open>print\<close> call, and the fault
  that ended it, if any.
\<close>

datatype fault = IndexError | AttributeError string

type_synonym console = "string list \<times> fault option"

section \<open>The detail renderer: \<open>_display_view_results\<close> (lines 20--71)\<close>

text \<open>\<open>reduce(lambda x, y: x + y.original_language, ..., '')\<close> (lines 24--25).\<close>

definition origin_of :: "original_language_info list \<Rightarrow> string" where
  "origin_of infos = foldl (\<lambda>x y. x @ oli_original_language y) [] infos"

text \<open>The loop that builds the list \<open>pronunciation\<close> (lines 27--34).\<close>

fun pronunciation_loop :: "string list \<Rightarrow> pronunciation_info list \<Rightarrow> string list" where
  "pronunciation_loop acc [] = acc"
| "pronunciation_loop acc (p # ps) =
     (let acc1 = (if acc \<noteq> [] then acc @ [''/''] else acc);
          acc2 = acc1 @ [pi_pronunciation p];
          acc3 = (case pi_url p of
                    Some u \<Rightarrow> acc2 @ ['' ('' @ u @ '')'']
                  | None \<Rightarrow> acc2)
      in pronunciation_loop acc3 ps)"

text \<open>The header line (lines 36--40).\<close>

definition header_line :: "word_info \<Rightarrow> string" where
  "header_line wi =
     (let origin = origin_of (wi_original_language_info wi);
          pronunciation = pronunciation_loop [] (wi_pronunciation_info wi)
      in wi_word wi
         @ '' '' @ lbracket @ wi_part_of_speech wi @ rbracket
         @ (if origin \<noteq> [] then '' ('' @ origin @ '')'' else [])
         @ (if pronunciation \<noteq> [] then '' ['' @ py_join [] pronunciation @ '']'' else []))"

text \<open>The numbered line of a definition (lines 45--54).\<close>

definition definition_line :: "nat \<Rightarrow> definition_info \<Rightarrow> string" where
  "definition_line idx d =
     (let lines =
        (case di_translations d of
           [] \<Rightarrow> [di_definition d]
         | tr # _ \<Rightarrow>
             (case vt_word tr of Some w \<Rightarrow> [w] | None \<Rightarrow> [])
               @ [newline @ ''   '' @ di_definition d]
               @ [newline @ ''   '' @ vt_definition tr])
      in str_nat (idx + 1) @ ''. '' @ py_join [] lines)"

text \<open>The example lines of a definition (lines 56--60).\<close>

definition example_marker :: string where
  "example_marker = ''   '' @ bullet @ '' ...''"

definition example_line :: "example_info \<Rightarrow> string" where
  "example_line e = ''   '' @ bullet @ '' '' @ ei_example e"

fun example_loop :: "nat \<Rightarrow> example_info list \<Rightarrow> string list" where
  "example_loop i [] = []"
| "example_loop i (e # es) =
     (if i = 5 then [example_marker]
      else example_line e # example_loop (i + 1) es)"

text \<open>The multimedia lines of a definition (lines 62--71).\<close>

definition multimedia_marker :: string where
  "multimedia_marker = ''   '' @ pointer @ '' ...''"

definition multimedia_line :: "multimedia_info \<Rightarrow> string" where
  "multimedia_line m =
     (if mi_content_urls m \<noteq> None \<and> the (mi_content_urls m) \<noteq> []
      then ''   '' @ pointer @ '' '' @ py_join '','' (the (mi_content_urls m))
             @ '' ('' @ mi_type m @ '')''
      else ''   '' @ pointer @ '' '' @ mi_url m @ '' ('' @ mi_type m @ '')'')"

fun multimedia_loop :: "nat \<Rightarrow> multimedia_info list \<Rightarrow> string list" where
  "multimedia_loop i [] = []"
| "multimedia_loop i (m # ms) =
     (if i = 5 then [multimedia_marker]
      else multimedia_line m # multimedia_loop (i + 1) ms)"

text \<open>The loop over the definitions (lines 44--71).\<close>

fun definition_loop :: "nat \<Rightarrow> definition_info list \<Rightarrow> string list" where
  "definition_loop idx [] = []"
| "definition_loop idx (d # ds) =
     definition_line idx d
       # example_loop 0 (di_example_info d)
       @ multimedia_loop 0 (di_multimedia_info d)
       @ definition_loop (idx + 1) ds"

text \<open>
  \<open>_display_view_results\<close>. \<open>data.results[0]\<close> raises \<open>IndexError\<close> on an empty list. A
  response of another class has results without \<open>word_info\<close>.
\<close>

fun display_view_results :: "response \<Rightarrow> console" where
  "display_view_results (ViewResponse t data) =
     (case vd_results data of
        [] \<Rightarrow> ([], Some IndexError)
      | result # _ \<Rightarrow>
          (let wi = vr_word_info result
           in (header_line wi # vd_url data # definition_loop 0 (wi_definition_info wi),
               None)))"
| "display_view_results (SearchResponse t data) =
     (case results data of
        [] \<Rightarrow> ([], Some IndexError)
      | result # _ \<Rightarrow> ([], Some (AttributeError ''word_info'')))"
| "display_view_results (DefinitionResponse t data) =
     (case results data of
        [] \<Rightarrow> ([], Some IndexError)
      | result # _ \<Rightarrow> ([], Some (AttributeError ''word_info'')))"

section \<open>The formatter: \<open>_display_results\<close> (lines 73--92)\<close>

text \<open>The summary line (line 79).\<close>

definition summary_line :: "int \<Rightarrow> string" where
  "summary_line n = ''Total Results: '' @ str_int n"

text \<open>The lines of one result, given its first definition (lines 88--92).\<close>

definition entry_lines :: "nat \<Rightarrow> string \<Rightarrow> string option \<Rightarrow> dfn \<Rightarrow> string list" where
  "entry_lines idx w origin first_dfn =
     (let origin_info =
        (if origin \<noteq> None \<and> the origin \<noteq> [] then '' ('' @ the origin @ '')'' else [])
      in (str_nat (idx + 1) @ ''. '' @ w @ origin_info @ '': '' @ dfn_definition first_dfn)
         # map (\<lambda>t. ''   '' @ t_word t @ '': '' @ t_definition t)
             (dfn_translations first_dfn))"

text \<open>
  The loop over the results (lines 81--92), for a response that is not a
  \<open>DefinitionResponse\<close>: \<open>result.definitions[0]\<close> raises \<open>IndexError\<close> on an empty list.
\<close>

fun word_result_loop :: "nat \<Rightarrow> word_result list \<Rightarrow> console" where
  "word_result_loop idx [] = ([], None)"
| "word_result_loop idx (r # rs) =
     (case wr_definitions r of
        [] \<Rightarrow> ([], Some IndexError)
      | first_dfn # _ \<Rightarrow>
          (let (ls, f) = word_result_loop (idx + 1) rs
           in (entry_lines idx (wr_word r) (wr_origin r) first_dfn @ ls, f)))"

text \<open>The same loop for a \<open>DefinitionResponse\<close>: \<open>result.definition_info\<close> is used.\<close>

fun definition_result_loop :: "nat \<Rightarrow> definition_result list \<Rightarrow> console" where
  "definition_result_loop idx [] = ([], None)"
| "definition_result_loop idx (r # rs) =
     (let (ls, f) = definition_result_loop (idx + 1) rs
      in (entry_lines idx (dr_word r) (dr_origin r) (dr_definition_info r) @ ls, f))"

text \<open>
  The list renderer: the part of \<open>_display_results\<close> after the dispatch (lines 78--92).
  For the data of a view response the summary line is printed too; its results have no
  \<open>definitions\<close>, so the loop stops at the first of them.
\<close>

fun display_list_results :: "response \<Rightarrow> console" where
  "display_list_results (SearchResponse t data) =
     (let (ls, f) = word_result_loop 0 (results data)
      in (summary_line (total_results data) # ls, f))"
| "display_list_results (DefinitionResponse t data) =
     (let (ls, f) = definition_result_loop 0 (results data)
      in (summary_line (total_results data) # ls, f))"
| "display_list_results (ViewResponse t data) =
     (case vd_results data of
        [] \<Rightarrow> ([summary_line (vd_total_results data)], None)
      | result # _ \<Rightarrow>
          ([summary_line (vd_total_results data)], Some (AttributeError ''definitions'')))"

text \<open>\<open>_display_results\<close>: the dispatch on the tag (lines 74--76).\<close>

definition display_results :: "response \<Rightarrow> console" where
  "display_results response =
     (if response_type response \<in> {''view'', ''scraped_view''}
      then display_view_results response
      else display_list_results response)"

section \<open>The driver (lines 370--388)\<close>


text \<open>Reading a global name: \<open>NameError\<close> when it is not bound.\<close>

definition lookup_global :: "string list \<Rightarrow> string \<Rightarrow> exn + string" where
  "lookup_global globals name =
     (if name \<in> set globals then Inr name else Inl (NameError name))"

datatype exn_class = KRDictException_class | RequestException_class

fun isinstance :: "exn \<Rightarrow> exn_class \<Rightarrow> bool" where
  "isinstance (KRDictException m) c = (c = KRDictException_class)"
| "isinstance (RequestException m) c = (c = RequestException_class)"
| "isinstance (NameError n) c = False"

text \<open>\<open>str(exc)\<close>.\<close>

fun str_exn :: "exn \<Rightarrow> string" where
  "str_exn (KRDictException m) = m"
| "str_exn (RequestException m) = m"
| "str_exn (NameError n) = ''name '' @ [CHR 0x27] @ n @ [CHR 0x27] @ '' is not defined''"

text \<open>
  The expression of the \<open>except\<close> clause, \<open>(krdict.KRDictException,
  requests.RequestException)\<close>, which Python evaluates when an exception reaches the
  \<open>try\<close> statement: each module name is read from the globals, left to right.
\<close>

definition handler_classes :: "string list \<Rightarrow> exn + exn_class list" where
  "handler_classes globals =
     (case lookup_global globals ''krdict'' of
        Inl e \<Rightarrow> Inl e
      | Inr _ \<Rightarrow>
          (case lookup_global globals ''requests'' of
             Inl e \<Rightarrow> Inl e
           | Inr _ \<Rightarrow> Inr [KRDictException_class, RequestException_class]))"

text \<open>
  \<open>_run_examples\<close>: the examples run in order, each either returning or raising; the
  first exception leaves the loop. The banner lines it prints around each example are left
  out.
\<close>

fun run_examples :: "(exn + unit) list \<Rightarrow> exn + unit" where
  "run_examples [] = Inr ()"
| "run_examples (r # rs) = (case r of Inl e \<Rightarrow> Inl e | Inr _ \<Rightarrow> run_examples rs)"

text \<open>What an example that ran \<open>pagination\<close> hands to the driver.\<close>

definition example_outcome :: "(exn \<times> 's) + 's \<Rightarrow> exn + unit" where
  "example_outcome r = (case r of Inl (e, _) \<Rightarrow> Inl e | Inr _ \<Rightarrow> Inr ())"

text \<open>
  How the process ends: normally, by \<open>sys.exit(message)\<close>, or with an exception nobody
  caught. An exception raised while another one is being handled keeps that one as its
  context (\<open>__context__\<close>): the second argument of \<open>Uncaught\<close>.
\<close>

datatype outcome = Completed | SystemExit string | Uncaught exn "exn option"


fun class_name :: "exn \<Rightarrow> string" where
  "class_name (KRDictException m) = ''KRDictException''"
| "class_name (RequestException m) = ''RequestException''"
| "class_name (NameError n) = ''NameError''"

text \<open>
  The last line of the interpreter's report of an exception: the name of its class, then
  \<open>str(exc)\<close> after a colon when that is not empty. The module prefix of the class name and
  the lines of the stack are left out.
\<close>

definition report_line :: "exn \<Rightarrow> string" where
  "report_line e =
     (if str_exn e = [] then class_name e else class_name e @ '': '' @ str_exn e)"

definition traceback_head :: string where
  "traceback_head = ''Traceback (most recent call last):''"

definition during_handling :: string where
  "during_handling = ''During handling of the above exception, another exception occurred:''"

text \<open>
  What is written to standard error when the process ends. \<open>sys.exit(message)\<close> writes
  the message. For an uncaught exception the interpreter writes its report, after the
  report of its context when it has one.
\<close>

fun stderr_lines :: "outcome \<Rightarrow> string list" where
  "stderr_lines Completed = []"
| "stderr_lines (SystemExit m) = [m]"
| "stderr_lines (Uncaught e None) = [traceback_head, report_line e]"
| "stderr_lines (Uncaught e (Some c)) =
     [traceback_head, report_line c, [], during_handling, [],
      traceback_head, report_line e]"

text \<open>The \<open>__main__\<close> block (lines 384--388), for given module globals.\<close>

definition main_with :: "string list \<Rightarrow> (exn + unit) list \<Rightarrow> outcome" where
  "main_with globals examples =
     (case run_examples examples of
        Inr _ \<Rightarrow> Completed
      | Inl exc \<Rightarrow>
          (case handler_classes globals of
             Inl e \<Rightarrow> Uncaught e (Some exc)
           | Inr classes \<Rightarrow>
               if list_ex (isinstance exc) classes then SystemExit (str_exn exc)
               else Uncaught exc None))"


section \<open>Quantities named by the specification\<close>

text \<open>The number of pages the specification names: \<open>ceil(T / P)\<close>, and at least 1.\<close>

definition ceil_pages :: "int \<Rightarrow> int \<Rightarrow> int" where
  "ceil_pages T P = max 1 \<lceil>real_of_int T / real_of_int P\<rceil>"

text \<open>
  One pronunciation as the specification describes it: its text, with \<open>" (url)"\<close> right
  after it when it carries a url.
\<close>

definition pronunciation_piece :: "pronunciation_info \<Rightarrow> string" where
  "pronunciation_piece p =
     pi_pronunciation p @ (case pi_url p of Some u \<Rightarrow> '' ('' @ u @ '')'' | None \<Rightarrow> [])"

section \<open>Properties of the pagination loop\<close>

lemma pagination_loop_stop:
  "\<not> pg_has_next st \<Longrightarrow> pagination_loop pp search st = Some (Inr st)"
  by (subst pagination_loop.simps) simp

lemma pagination_loop_fetch:
  "pg_has_next st \<Longrightarrow> search (pg_page st) pp = Inr d \<Longrightarrow>
   pagination_loop pp search st =
     pagination_loop pp search
       (pagination_body (st\<lparr>pg_requests := pg_requests st @ [(pg_page st, pp)]\<rparr>) d)"
  by (subst pagination_loop.simps) simp

lemma pagination_loop_raise:
  "pg_has_next st \<Longrightarrow> search (pg_page st) pp = Inl e \<Longrightarrow>
   pagination_loop pp search st =
     Some (Inl (e, st\<lparr>pg_requests := pg_requests st @ [(pg_page st, pp)]\<rparr>))"
  by (subst pagination_loop.simps) simp

text \<open>
  A service that answers every request for page \<open>p\<close> of size \<open>P\<close> with total \<open>T\<close>, echoing
  \<open>p\<close> and \<open>P\<close>: from any state of the loop at page \<open>k\<close>, the loop fetches the pages
  \<open>k, \<dots>, n\<close> and stops, where \<open>n\<close> is the first page with \<open>T \<le> P * n\<close>.
\<close>

lemma pagination_loop_pages:
  assumes resp: "\<And>p. 1 \<le> p \<Longrightarrow>
      search p P = Inr \<lparr>total_results = T, page = p, per_page = P, results = rs p\<rparr>"
    and "0 < P" and "pg_has_next st" and "1 \<le> pg_page st" and "pg_page st \<le> n"
    and "n = pg_page st \<or> P * (n - 1) < T" and "T \<le> P * n"
  shows "pagination_loop P search st =
     Some (Inr \<lparr>pg_page = n + 1,
                pg_results = pg_results st @ concat (map rs [pg_page st..n]),
                pg_has_next = False,
                pg_total_results = T,
                pg_requests = pg_requests st @ map (\<lambda>p. (p, P)) [pg_page st..n],
                pg_output = pg_output st
                  @ map (\<lambda>p. progress_line (length (rs p)) p (p < n)) [pg_page st..n]\<rparr>)"
  using assms(3-)
proof (induction "nat (n - pg_page st)" arbitrary: st)
  case 0
  then have k: "pg_page st = n" by simp
  let ?d = "\<lparr>total_results = T, page = n, per_page = P, results = rs n\<rparr>"
  let ?st1 = "st\<lparr>pg_requests := pg_requests st @ [(pg_page st, P)]\<rparr>"
  have f: "search (pg_page st) P = Inr ?d"
    using resp [of n] "0.prems" k by simp
  have nh: "\<not> pg_has_next (pagination_body ?st1 ?d)"
    using "0.prems" by (simp add: pagination_body_def Let_def)
  have "pagination_loop P search st = Some (Inr (pagination_body ?st1 ?d))"
    using pagination_loop_fetch [where search = search and pp = P, OF \<open>pg_has_next st\<close> f] pagination_loop_stop [OF nh]
    by simp
  also have "pagination_body ?st1 ?d = \<lparr>pg_page = n + 1,
                pg_results = pg_results st @ concat (map rs [pg_page st..n]),
                pg_has_next = False,
                pg_total_results = T,
                pg_requests = pg_requests st @ map (\<lambda>p. (p, P)) [pg_page st..n],
                pg_output = pg_output st
                  @ map (\<lambda>p. progress_line (length (rs p)) p (p < n)) [pg_page st..n]\<rparr>"
    using "0.prems" k by (simp add: pagination_body_def Let_def)
  finally show ?case .
next
  case (Suc m)
  let ?k = "pg_page st"
  have lt: "?k < n" using Suc.hyps(2) by linarith
  let ?d = "\<lparr>total_results = T, page = ?k, per_page = P, results = rs ?k\<rparr>"
  let ?st1 = "st\<lparr>pg_requests := pg_requests st @ [(?k, P)]\<rparr>"
  let ?st2 = "pagination_body ?st1 ?d"
  have f: "search ?k P = Inr ?d"
    using resp [of ?k] Suc.prems by simp
  have "P * ?k \<le> P * (n - 1)"
    using lt \<open>0 < P\<close> by (intro mult_left_mono) simp_all
  then have more: "P * ?k < T" using Suc.prems lt by linarith
  have pg2: "pg_page ?st2 = ?k + 1"
    by (simp add: pagination_body_def Let_def)
  have hn2: "pg_has_next ?st2"
    using more by (simp add: pagination_body_def Let_def)
  have m: "m = nat (n - pg_page ?st2)" using Suc.hyps(2) pg2 by linarith
  have ih: "pagination_loop P search ?st2 =
     Some (Inr \<lparr>pg_page = n + 1,
                pg_results = pg_results ?st2 @ concat (map rs [pg_page ?st2..n]),
                pg_has_next = False,
                pg_total_results = T,
                pg_requests = pg_requests ?st2 @ map (\<lambda>p. (p, P)) [pg_page ?st2..n],
                pg_output = pg_output ?st2
                  @ map (\<lambda>p. progress_line (length (rs p)) p (p < n)) [pg_page ?st2..n]\<rparr>)"
    using Suc.hyps(1) [OF m hn2] pg2 Suc.prems lt by simp
  have up: "[?k..n] = ?k # [?k + 1..n]"
    using lt by (simp add: upto_rec1)
  show ?case
    unfolding pagination_loop_fetch [where search = search and pp = P, OF \<open>pg_has_next st\<close> f] ih up
    using lt more by (simp add: pagination_body_def Let_def)
qed

lemma pagination_loop_from_start:
  assumes resp: "\<And>p. 1 \<le> p \<Longrightarrow>
      search p P = Inr \<lparr>total_results = T, page = p, per_page = P, results = rs p\<rparr>"
    and "0 < P" and "1 \<le> n" and "n = 1 \<or> P * (n - 1) < T" and "T \<le> P * n"
  shows "pagination_loop P search pagination_init =
     Some (Inr \<lparr>pg_page = n + 1,
                pg_results = concat (map rs [1..n]),
                pg_has_next = False,
                pg_total_results = T,
                pg_requests = map (\<lambda>p. (p, P)) [1..n],
                pg_output = map (\<lambda>p. progress_line (length (rs p)) p (p < n)) [1..n]\<rparr>)"
proof -
  have "pg_has_next pagination_init" "1 \<le> pg_page pagination_init"
    "pg_page pagination_init \<le> n" "n = pg_page pagination_init \<or> P * (n - 1) < T"
    using assms(3,4) by (simp_all add: pagination_init_def)
  from pagination_loop_pages [where search = search and P = P and T = T and rs = rs,
      OF resp \<open>0 < P\<close> this \<open>T \<le> P * n\<close>]
  show ?thesis by (simp add: pagination_init_def)
qed

lemma ceil_pages_bounds:
  assumes "0 \<le> T" and "0 < P"
  shows "1 \<le> ceil_pages T P"
    and "ceil_pages T P = 1 \<or> P * (ceil_pages T P - 1) < T"
    and "T \<le> P * ceil_pages T P"
proof -
  let ?c = "\<lceil>real_of_int T / real_of_int P\<rceil>"
  have rp: "0 < real_of_int P" using \<open>0 < P\<close> by simp
  have "real_of_int T \<le> of_int ?c * real_of_int P"
    using ceiling_divide_upper [OF rp] .
  then have "real_of_int T \<le> real_of_int (?c * P)" by simp
  then have up: "T \<le> ?c * P" by (simp only: of_int_le_iff)
  have "(of_int ?c - 1) * real_of_int P < real_of_int T"
    using ceiling_divide_lower [OF rp] .
  then have "real_of_int ((?c - 1) * P) < real_of_int T" by simp
  then have lo: "(?c - 1) * P < T" by (simp only: of_int_less_iff)
  show "1 \<le> ceil_pages T P" by (simp add: ceil_pages_def)
  show "ceil_pages T P = 1 \<or> P * (ceil_pages T P - 1) < T"
    using lo by (auto simp: ceil_pages_def max_def mult.commute)
  show "T \<le> P * ceil_pages T P"
  proof (cases "1 \<le> ?c")
    case True
    then show ?thesis using up by (simp add: ceil_pages_def max_def mult.commute)
  next
    case False
    then have "?c \<le> 0" by simp
    then have "?c * P \<le> 0" using \<open>0 < P\<close> by (simp add: mult_le_0_iff)
    then have "T \<le> P" using up \<open>0 < P\<close> by linarith
    then show ?thesis using False by (simp add: ceil_pages_def max_def)
  qed
qed

text \<open>As long as \<open>P * m \<le> T\<close>, the first \<open>m\<close> pages are full.\<close>

lemma full_pages_length:
  assumes len: "\<And>p. 1 \<le> p \<Longrightarrow> int (length (rs p)) = max 0 (min P (T - (p - 1) * P))"
    and "0 < P" and "0 \<le> m" and "P * m \<le> T"
  shows "int (length (concat (map rs [1..m]))) = P * m"
  using assms(3,4)
proof (induction m rule: int_ge_induct)
  case base
  show ?case by simp
next
  case (step i)
  have "P * i \<le> P * (i + 1)" using \<open>0 < P\<close> by (simp add: distrib_left)
  then have ih: "int (length (concat (map rs [1..i]))) = P * i"
    using step by simp
  have up: "[1..i + 1] = [1..i] @ [i + 1]"
    using step.hyps by (simp add: upto_rec2)
  have "int (length (rs (i + 1))) = P"
    using len [of "i + 1"] step.hyps step.prems \<open>0 < P\<close>
    by (simp add: algebra_simps min_def max_def)
  then show ?case
    unfolding up using ih by (simp add: algebra_simps)
qed

lemma all_pages_length:
  assumes len: "\<And>p. 1 \<le> p \<Longrightarrow> int (length (rs p)) = max 0 (min P (T - (p - 1) * P))"
    and "0 < P" and "0 \<le> T" and "1 \<le> n" and "n = 1 \<or> P * (n - 1) < T" and "T \<le> P * n"
  shows "int (length (concat (map rs [1..n]))) = T"
proof -
  have le: "P * (n - 1) \<le> T" using assms(3,5) by auto
  have a: "int (length (concat (map rs [1..n - 1]))) = P * (n - 1)"
    using full_pages_length [OF len \<open>0 < P\<close> _ le] \<open>1 \<le> n\<close> by simp
  have up: "[1..n] = [1..n - 1] @ [n]"
    using \<open>1 \<le> n\<close> by (simp add: upto_rec2)
  have "T - (n - 1) * P \<le> P"
    using \<open>T \<le> P * n\<close> by (simp add: algebra_simps)
  moreover have "0 \<le> T - (n - 1) * P"
    using le by (simp add: algebra_simps)
  ultimately have "int (length (rs n)) = T - (n - 1) * P"
    using len [OF \<open>1 \<le> n\<close>] by (simp add: min_def max_def)
  then show ?thesis
    unfolding up using a by (simp add: algebra_simps)
qed

text \<open>Pages cut from one list \<open>xs\<close>, put back together.\<close>

lemma slices_concat:
  assumes "0 < P" and "0 \<le> m"
  shows "concat (map (\<lambda>p. take (nat P) (drop (nat ((p - 1) * P)) xs)) [1..m])
           = take (nat (m * P)) xs"
  using assms(2)
proof (induction m rule: int_ge_induct)
  case base
  show ?case by simp
next
  case (step i)
  have up: "[1..i + 1] = [1..i] @ [i + 1]"
    using step.hyps by (simp add: upto_rec2)
  have "nat ((i + 1) * P) = nat (i * P) + nat P"
    using step.hyps \<open>0 < P\<close> by (simp add: distrib_right nat_add_distrib)
  then show ?case
    unfolding up using step.IH by (simp add: take_add)
qed

text \<open>
  What the loop has collected when it returns, whatever the responses were: the results of
  the pages from the one it started at up to the last one it asked for, in that order.
\<close>

lemma pagination_loop_collects:
  assumes "pagination_loop pp search st0 = Some y"
  shows "\<forall>st. y = Inr st \<longrightarrow>
           pg_page st0 \<le> pg_page st \<and>
           pg_results st = pg_results st0
             @ concat (map (\<lambda>p. case search p pp of Inl e \<Rightarrow> [] | Inr d \<Rightarrow> results d)
                 [pg_page st0..pg_page st - 1]) \<and>
           pg_requests st = pg_requests st0
             @ map (\<lambda>p. (p, pp)) [pg_page st0..pg_page st - 1]"
  using assms
proof (induction rule: pagination_loop.raw_induct [rotated, consumes 1, case_names step])
  case (step loop pp search st0 y)
  show ?case
  proof (cases "pg_has_next st0")
    case False
    then show ?thesis using step(2) by auto
  next
    case True
    note hn = this
    show ?thesis
    proof (cases "search (pg_page st0) pp")
      case (Inl e)
      then show ?thesis using step(2) hn by auto
    next
      case (Inr d)
      let ?st1 = "st0\<lparr>pg_requests := pg_requests st0 @ [(pg_page st0, pp)]\<rparr>"
      let ?st2 = "pagination_body ?st1 d"
      have call: "loop pp search ?st2 = Some y"
        using step(2) hn Inr by simp
      have pg2: "pg_page ?st2 = pg_page st0 + 1"
        and rs2: "pg_results ?st2 = pg_results st0 @ results d"
        and rq2: "pg_requests ?st2 = pg_requests st0 @ [(pg_page st0, pp)]"
        by (simp_all add: pagination_body_def Let_def)
      show ?thesis
      proof (intro allI impI)
        fix st assume y: "y = Inr st"
        from step(1) [OF call] y
        have le: "pg_page st0 + 1 \<le> pg_page st"
          and rs: "pg_results st = pg_results ?st2
             @ concat (map (\<lambda>p. case search p pp of Inl e \<Rightarrow> [] | Inr d \<Rightarrow> results d)
                 [pg_page st0 + 1..pg_page st - 1])"
          and rq: "pg_requests st = pg_requests ?st2
             @ map (\<lambda>p. (p, pp)) [pg_page st0 + 1..pg_page st - 1]"
          unfolding pg2 by blast+
        have up: "[pg_page st0..pg_page st - 1] = pg_page st0 # [pg_page st0 + 1..pg_page st - 1]"
          using le by (simp add: upto_rec1)
        show "pg_page st0 \<le> pg_page st \<and>
           pg_results st = pg_results st0
             @ concat (map (\<lambda>p. case search p pp of Inl e \<Rightarrow> [] | Inr d \<Rightarrow> results d)
                 [pg_page st0..pg_page st - 1]) \<and>
           pg_requests st = pg_requests st0
             @ map (\<lambda>p. (p, pp)) [pg_page st0..pg_page st - 1]"
          unfolding up rs rq rs2 rq2 using le Inr by simp
      qed
    qed
  qed
qed

section \<open>Claims about the pagination aggregator\<close>

text \<open>
  C1. Pagination completeness. For every total \<open>T \<ge> 0\<close> and page size \<open>P > 0\<close>, when every
  page \<open>p\<close> answers with total \<open>T\<close>, echoes \<open>p\<close> and \<open>P\<close>, and carries \<open>min(P, remaining)\<close>
  entries, the aggregator returns, having issued exactly \<open>ceil(T / P)\<close> fetches (one when
  \<open>T = 0\<close>), for the pages \<open>1, 2, \<dots>\<close> in order, and having collected \<open>T\<close> results. The
  printed progress lines show \<open>has_next\<close> true after every page but the last.
\<close>

theorem pagination_completeness:
  assumes "0 \<le> T" and "0 < P"
    and resp: "\<And>p. 1 \<le> p \<Longrightarrow>
      search p P = Inr \<lparr>total_results = T, page = p, per_page = P, results = rs p\<rparr>"
    and len: "\<And>p. 1 \<le> p \<Longrightarrow> int (length (rs p)) = max 0 (min P (T - (p - 1) * P))"
  shows "\<exists>st. pagination_with P search = Some (Inr st)
      \<and> pg_requests st = map (\<lambda>p. (p, P)) [1..ceil_pages T P]
      \<and> int (length (pg_requests st)) = ceil_pages T P
      \<and> pg_results st = concat (map rs [1..ceil_pages T P])
      \<and> int (length (pg_results st)) = T
      \<and> pg_total_results st = T
      \<and> \<not> pg_has_next st
      \<and> pg_output st =
          map (\<lambda>p. progress_line (length (rs p)) p (p < ceil_pages T P)) [1..ceil_pages T P]
            @ [collected_line (nat T) T]"
proof -
  let ?n = "ceil_pages T P"
  note b = ceil_pages_bounds [OF \<open>0 \<le> T\<close> \<open>0 < P\<close>]
  have loop: "pagination_loop P search pagination_init =
     Some (Inr \<lparr>pg_page = ?n + 1,
                pg_results = concat (map rs [1..?n]),
                pg_has_next = False,
                pg_total_results = T,
                pg_requests = map (\<lambda>p. (p, P)) [1..?n],
                pg_output = map (\<lambda>p. progress_line (length (rs p)) p (p < ?n)) [1..?n]\<rparr>)"
    using pagination_loop_from_start [where search = search and P = P and T = T and rs = rs,
        OF resp \<open>0 < P\<close> b] .
  have l: "int (length (concat (map rs [1..?n]))) = T"
    using all_pages_length [OF len \<open>0 < P\<close> \<open>0 \<le> T\<close> b(1) b(2) b(3)] .
  then have l': "length (concat (map rs [1..?n])) = nat T" by linarith
  have rq: "int (length (map (\<lambda>p. (p, P)) [1..?n])) = ?n"
    using b(1) by simp
  show ?thesis
    unfolding pagination_with_def loop using l l' rq by simp
qed

theorem pagination_completeness_witness:
  "(\<exists>st. pagination (\<lambda>p pp. Inr \<lparr>total_results = 45, page = p, per_page = pp,
            results = replicate (nat (max 0 (min pp (45 - (p - 1) * pp)))) p\<rparr>) = Some (Inr st)
      \<and> pg_requests st = [(1, 20), (2, 20), (3, 20)]
      \<and> length (pg_results st) = 45
      \<and> pg_output st =
          [''Collected 20 results from page 1. Querying next page.'',
           ''Collected 20 results from page 2. Querying next page.'',
           ''Collected 5 results from page 3. All results collected.'',
           ''45 results collected. Total results: 45.''])
   \<and> (\<exists>st. pagination (\<lambda>p pp. Inr \<lparr>total_results = 0, page = p, per_page = pp,
            results = ([] :: int list)\<rparr>) = Some (Inr st)
      \<and> pg_requests st = [(1, 20)]
      \<and> pg_results st = []
      \<and> pg_output st =
          [''Collected 0 results from page 1. All results collected.'',
           ''0 results collected. Total results: 0.''])"
proof -
  have c45: "ceil_pages 45 20 = 3" and c0: "ceil_pages 0 20 = 1"
    by (simp_all add: ceil_pages_def)
  have u3: "[1..3::int] = [1, 2, 3]" and u1: "[1..1::int] = [1]"
    by (simp_all add: upto.simps)
  have strs: "str_nat 20 = ''20''" "str_nat 5 = ''5''" "str_nat 45 = ''45''" "str_nat 0 = ''0''"
    "str_int 1 = ''1''" "str_int 2 = ''2''" "str_int 3 = ''3''" "str_int 45 = ''45''"
    "str_int 0 = ''0''"
    by (simp_all add: str_int_def str_nat.simps digit_chars_def)
  have a: "\<exists>st. pagination_with 20 (\<lambda>p pp. Inr \<lparr>total_results = 45, page = p, per_page = pp,
            results = replicate (nat (max 0 (min pp (45 - (p - 1) * pp)))) p\<rparr>) = Some (Inr st)
      \<and> pg_requests st = [(1, 20), (2, 20), (3, 20)]
      \<and> length (pg_results st) = 45
      \<and> pg_output st =
          [''Collected 20 results from page 1. Querying next page.'',
           ''Collected 20 results from page 2. Querying next page.'',
           ''Collected 5 results from page 3. All results collected.'',
           ''45 results collected. Total results: 45.'']"
    using pagination_completeness [of 45 20
        "\<lambda>p pp. Inr \<lparr>total_results = 45, page = p, per_page = pp,
            results = replicate (nat (max 0 (min pp (45 - (p - 1) * pp)))) p\<rparr>"
        "\<lambda>p. replicate (nat (max 0 (min 20 (45 - (p - 1) * 20)))) p"]
    unfolding c45 u3
    by (simp add: progress_line_def collected_line_def strs) blast
  have b: "\<exists>st. pagination_with 20 (\<lambda>p pp. Inr \<lparr>total_results = 0, page = p, per_page = pp,
            results = ([] :: int list)\<rparr>) = Some (Inr st)
      \<and> pg_requests st = [(1, 20)]
      \<and> pg_results st = []
      \<and> pg_output st =
          [''Collected 0 results from page 1. All results collected.'',
           ''0 results collected. Total results: 0.'']"
    using pagination_completeness [of 0 20
        "\<lambda>p pp. Inr \<lparr>total_results = 0, page = p, per_page = pp, results = ([] :: int list)\<rparr>"
        "\<lambda>p. []"]
    unfolding c0 u1
    by (simp add: progress_line_def collected_line_def strs) blast
  show ?thesis
    unfolding pagination_def using a b by blast
qed

text \<open>
  C7. Order preservation. Whatever the responses, what the aggregator returns is the
  concatenation of the results of the pages it asked for, page 1 first. When the pages are
  cut from one sequence \<open>xs\<close>, with any page size \<open>P > 0\<close>, it returns \<open>xs\<close> itself: what a
  single unpaged fetch would give.
\<close>

theorem pagination_order_preserved:
  "(\<forall>st. pagination_with pp search = Some (Inr st) \<longrightarrow>
        pg_requests st = map (\<lambda>p. (p, pp)) [1..pg_page st - 1] \<and>
        pg_results st =
          concat (map (\<lambda>p. case search p pp of Inl e \<Rightarrow> [] | Inr d \<Rightarrow> results d)
            [1..pg_page st - 1]))
   \<and> (0 < P \<and> (\<forall>p\<ge>1. paged p P =
          Inr \<lparr>total_results = int (length xs), page = p, per_page = P,
               results = take (nat P) (drop (nat ((p - 1) * P)) xs)\<rparr>) \<longrightarrow>
        (\<exists>st. pagination_with P paged = Some (Inr st) \<and> pg_results st = xs))"
proof (intro conjI allI impI)
  fix st
  assume r: "pagination_with pp search = Some (Inr st)"
  then obtain st' where l: "pagination_loop pp search pagination_init = Some (Inr st')"
    and st: "st = st'\<lparr>pg_output := pg_output st'
                      @ [collected_line (length (pg_results st')) (pg_total_results st')]\<rparr>"
    by (auto simp: pagination_with_def split: option.splits sum.splits)
  from pagination_loop_collects [OF l]
  show "pg_requests st = map (\<lambda>p. (p, pp)) [1..pg_page st - 1]"
    and "pg_results st =
          concat (map (\<lambda>p. case search p pp of Inl e \<Rightarrow> [] | Inr d \<Rightarrow> results d)
            [1..pg_page st - 1])"
    by (simp_all add: st pagination_init_def)
next
  assume a: "0 < P \<and> (\<forall>p\<ge>1. paged p P =
          Inr \<lparr>total_results = int (length xs), page = p, per_page = P,
               results = take (nat P) (drop (nat ((p - 1) * P)) xs)\<rparr>)"
  let ?T = "int (length xs)"
  let ?n = "ceil_pages ?T P"
  let ?rs = "\<lambda>p. take (nat P) (drop (nat ((p - 1) * P)) xs)"
  have P: "0 < P" using a by simp
  have resp: "\<And>p. 1 \<le> p \<Longrightarrow> paged p P =
      Inr \<lparr>total_results = ?T, page = p, per_page = P, results = ?rs p\<rparr>"
    using a by simp
  have T: "0 \<le> ?T" by simp
  note b = ceil_pages_bounds [OF T P]
  have loop: "pagination_loop P paged pagination_init =
     Some (Inr \<lparr>pg_page = ?n + 1,
                pg_results = concat (map ?rs [1..?n]),
                pg_has_next = False,
                pg_total_results = ?T,
                pg_requests = map (\<lambda>p. (p, P)) [1..?n],
                pg_output = map (\<lambda>p. progress_line (length (?rs p)) p (p < ?n)) [1..?n]\<rparr>)"
    using pagination_loop_from_start [where search = paged and P = P and T = ?T and rs = ?rs,
        OF resp P b] .
  have "0 \<le> ?n" using b(1) by linarith
  then have "concat (map ?rs [1..?n]) = take (nat (?n * P)) xs"
    using slices_concat [OF P, of ?n xs] by simp
  moreover have "length xs \<le> nat (?n * P)"
    using b(3) by (simp add: mult.commute)
  ultimately have "concat (map ?rs [1..?n]) = xs" by simp
  then show "\<exists>st. pagination_with P paged = Some (Inr st) \<and> pg_results st = xs"
    unfolding pagination_with_def loop by simp
qed

theorem pagination_order_preserved_witness:
  "\<exists>st. pagination_with 3 (\<lambda>p pp. Inr \<lparr>total_results = 7, page = p, per_page = pp,
            results = take (nat pp) (drop (nat ((p - 1) * pp)) ''abcdefg'')\<rparr>) = Some (Inr st)
      \<and> pg_results st = ''abcdefg''
      \<and> pg_requests st = map (\<lambda>p. (p, 3)) [1..pg_page st - 1]
      \<and> pg_results st =
          concat (map (\<lambda>p. take 3 (drop (nat ((p - 1) * 3)) ''abcdefg'')) [1..pg_page st - 1])"
proof -
  let ?c = "\<lambda>p pp. Inr \<lparr>total_results = 7, page = p, per_page = pp,
            results = take (nat pp) (drop (nat ((p - 1) * pp)) ''abcdefg'')\<rparr>
              :: exn + char search_data"
  note t = pagination_order_preserved [of 3 ?c 3 ?c "''abcdefg''"]
  from t obtain st where st: "pagination_with 3 ?c = Some (Inr st)" "pg_results st = ''abcdefg''"
    by auto
  from t st(1) have "pg_requests st = map (\<lambda>p. (p, 3)) [1..pg_page st - 1]"
    and "pg_results st =
          concat (map (\<lambda>p. take 3 (drop (nat ((p - 1) * 3)) ''abcdefg'')) [1..pg_page st - 1])"
    by simp_all
  with st show ?thesis by blast
qed

text \<open>
  C10. The continuation predicate is computed from the page number and page size echoed in
  the response, not from the request counter: after a fetch that returned \<open>d\<close>, the loop
  goes on exactly when \<open>per_page d * page d < total_results d\<close>, whatever page and page size
  were asked for.
\<close>

theorem continuation_follows_echo:
  assumes "pg_has_next st" and "search (pg_page st) pp = Inr d"
  shows "pg_has_next (pagination_body (st\<lparr>pg_requests := pg_requests st @ [(pg_page st, pp)]\<rparr>) d)
           = (per_page d * page d < total_results d)
    \<and> pagination_loop pp search st =
        (if per_page d * page d < total_results d
         then pagination_loop pp search
                (pagination_body (st\<lparr>pg_requests := pg_requests st @ [(pg_page st, pp)]\<rparr>) d)
         else Some (Inr
                (pagination_body (st\<lparr>pg_requests := pg_requests st @ [(pg_page st, pp)]\<rparr>) d)))"
proof -
  let ?st2 = "pagination_body (st\<lparr>pg_requests := pg_requests st @ [(pg_page st, pp)]\<rparr>) d"
  have hn: "pg_has_next ?st2 = (per_page d * page d < total_results d)"
    by (simp add: pagination_body_def Let_def)
  have "pagination_loop pp search st = pagination_loop pp search ?st2"
    using pagination_loop_fetch [where search = search and pp = pp, OF assms] .
  moreover have "\<not> per_page d * page d < total_results d \<Longrightarrow>
      pagination_loop pp search ?st2 = Some (Inr ?st2)"
    using hn pagination_loop_stop [of ?st2 pp search] by simp
  ultimately show ?thesis using hn by simp
qed

theorem continuation_follows_echo_witness:
  "(20::int) * 1 < 45 \<and> \<not> (50::int) * 1 < 45
   \<and> pagination (\<lambda>p pp. Inr \<lparr>total_results = 45, page = p, per_page = 50, results = ''abc''\<rparr>)
     = Some (Inr \<lparr>pg_page = 2, pg_results = ''abc'', pg_has_next = False,
                  pg_total_results = 45, pg_requests = [(1, 20)],
                  pg_output = [''Collected 3 results from page 1. All results collected.'',
                               ''3 results collected. Total results: 45.'']\<rparr>)"
proof -
  let ?c = "\<lambda>p pp. Inr \<lparr>total_results = 45, page = p, per_page = 50, results = ''abc''\<rparr>
              :: exn + char search_data"
  have strs: "str_nat (Suc (Suc (Suc 0))) = ''3''" "str_int 1 = ''1''" "str_int 45 = ''45''"
    by (simp_all add: str_int_def str_nat.simps digit_chars_def)
  have "pagination_loop 20 ?c pagination_init =
      Some (Inr (pagination_body
        (pagination_init\<lparr>pg_requests := pg_requests pagination_init @ [(pg_page pagination_init, 20)]\<rparr>)
        \<lparr>total_results = 45, page = 1, per_page = 50, results = ''abc''\<rparr>))"
    using continuation_follows_echo [of pagination_init ?c 20
        "\<lparr>total_results = 45, page = 1, per_page = 50, results = ''abc''\<rparr>"]
    by (simp add: pagination_init_def)
  then show ?thesis
    by (simp add: pagination_def pagination_with_def pagination_init_def pagination_body_def
        Let_def progress_line_def collected_line_def strs)
qed

section \<open>Properties of the detail renderer\<close>

lemma py_join_empty_sep: "py_join [] xs = concat xs"
  by (induction "[] :: string" xs rule: py_join.induct) simp_all

lemma py_join_Cons: "py_join sep (x # xs) = x @ concat (map (\<lambda>y. sep @ y) xs)"
  by (induction xs arbitrary: x) simp_all

lemma length_py_join:
  "xs \<noteq> [] \<Longrightarrow>
   length (py_join sep xs) = sum_list (map length xs) + (length xs - 1) * length sep"
proof (induction sep xs rule: py_join.induct)
  case (3 sep x y ys)
  then show ?case by simp
qed simp_all

lemma count_py_join:
  assumes "\<forall>x\<in>set xs. c \<notin> set x" and "xs \<noteq> []"
  shows "count_list (py_join [c] xs) c = length xs - 1"
proof -
  have tail: "\<forall>x\<in>set ys. c \<notin> set x \<Longrightarrow>
      count_list (concat (map (\<lambda>y. [c] @ y) ys)) c = length ys" for ys
    by (induction ys) simp_all
  obtain x ys where xs: "xs = x # ys" using \<open>xs \<noteq> []\<close> by (cases xs) auto
  show ?thesis
    using assms(1) unfolding xs py_join_Cons by (simp add: tail)
qed

lemma pronunciation_loop_concat:
  "concat (pronunciation_loop acc ps) =
     concat acc @ (if acc = [] then py_join ''/'' (map pronunciation_piece ps)
                   else concat (map (\<lambda>p. ''/'' @ pronunciation_piece p) ps))"
proof (induction ps arbitrary: acc)
  case Nil
  show ?case by simp
next
  case (Cons p ps)
  show ?case
    by (cases "pi_url p")
      (simp_all add: Cons.IH Let_def pronunciation_piece_def py_join_Cons comp_def)
qed

lemma pronunciation_loop_empty:
  "pronunciation_loop acc ps = [] \<longleftrightarrow> acc = [] \<and> ps = []"
proof (induction ps arbitrary: acc)
  case Nil
  show ?case by simp
next
  case (Cons p ps)
  show ?case
    by (cases "pi_url p") (simp_all add: Cons.IH Let_def)
qed

lemma example_loop_take:
  "i \<le> 5 \<Longrightarrow> example_loop i es =
     map example_line (take (5 - i) es) @ (if 5 - i < length es then [example_marker] else [])"
proof (induction es arbitrary: i)
  case Nil
  show ?case by simp
next
  case (Cons e es)
  show ?case
  proof (cases "i = 5")
    case True
    then show ?thesis by simp
  next
    case False
    with Cons.prems have lt: "i < 5" by simp
    then obtain k where k: "5 - i = Suc k" "5 - (i + 1) = k"
      by (cases "5 - i") auto
    show ?thesis
      using Cons.IH [of "i + 1"] lt False k by simp
  qed
qed

lemma multimedia_loop_take:
  "i \<le> 5 \<Longrightarrow> multimedia_loop i ms =
     map multimedia_line (take (5 - i) ms)
       @ (if 5 - i < length ms then [multimedia_marker] else [])"
proof (induction ms arbitrary: i)
  case Nil
  show ?case by simp
next
  case (Cons m ms)
  show ?case
  proof (cases "i = 5")
    case True
    then show ?thesis by simp
  next
    case False
    with Cons.prems have lt: "i < 5" by simp
    then obtain k where k: "5 - i = Suc k" "5 - (i + 1) = k"
      by (cases "5 - i") auto
    show ?thesis
      using Cons.IH [of "i + 1"] lt False k by simp
  qed
qed

lemma example_loop_0:
  "example_loop 0 es =
     map example_line (take 5 es) @ (if 5 < length es then [example_marker] else [])"
  using example_loop_take [of 0 es] by simp

lemma multimedia_loop_0:
  "multimedia_loop 0 ms =
     map multimedia_line (take 5 ms) @ (if 5 < length ms then [multimedia_marker] else [])"
  using multimedia_loop_take [of 0 ms] by simp

lemma multimedia_line_cases:
  "multimedia_line m =
     ''   '' @ pointer @ '' ''
       @ (case mi_content_urls m of Some (u # us) \<Rightarrow> py_join '','' (u # us) | _ \<Rightarrow> mi_url m)
       @ '' ('' @ mi_type m @ '')''"
  by (simp add: multimedia_line_def split: option.splits list.splits)

lemma multimedia_line_fun:
  "multimedia_line =
     (\<lambda>m. ''   '' @ pointer @ '' ''
       @ (case mi_content_urls m of Some (u # us) \<Rightarrow> py_join '','' (u # us) | _ \<Rightarrow> mi_url m)
       @ '' ('' @ mi_type m @ '')'')"
  by (rule ext) (rule multimedia_line_cases)

lemma definition_loop_blocks:
  "definition_loop idx ds =
     concat (map (\<lambda>(i, d). definition_line i d # example_loop 0 (di_example_info d)
                    @ multimedia_loop 0 (di_multimedia_info d))
       (enumerate idx ds))"
proof (induction ds arbitrary: idx)
  case Nil
  show ?case by simp
next
  case (Cons d ds)
  show ?case using Cons.IH [of "idx + 1"] by simp
qed

text \<open>What \<open>_display_results\<close> prints for a view response that has a result.\<close>

lemma display_view_lines:
  assumes "t \<in> {''view'', ''scraped_view''}" and "vd_results vd = res # rest"
  shows "display_results (ViewResponse t vd) =
     (header_line (vr_word_info res) # vd_url vd
        # definition_loop 0 (wi_definition_info (vr_word_info res)), None)"
  using assms by (simp add: display_results_def Let_def)

section \<open>Claims about the detail renderer\<close>

text \<open>
  C2. Truncation bound. Under a definition with \<open>N\<close> examples the renderer prints the
  bulleted lines of the first \<open>min(N, 5)\<close> examples, followed by one truncation marker line
  (the bullet and three full stops) exactly when \<open>N > 5\<close>; the sixth example is never
  printed. The same holds for the multimedia entries, whose marker line starts with the
  pointer and so differs from the examples' marker. What \<open>_display_results\<close> prints for a
  view response is the header, the url and, for each definition in turn, its numbered line
  followed by these two truncated blocks.
\<close>

theorem truncation_bound:
  "example_loop 0 (di_example_info d) =
      map example_line (take 5 (di_example_info d))
        @ (if 5 < length (di_example_info d) then [example_marker] else [])
   \<and> length (map example_line (take 5 (di_example_info d)))
        = min (length (di_example_info d)) 5
   \<and> multimedia_loop 0 (di_multimedia_info d) =
      map multimedia_line (take 5 (di_multimedia_info d))
        @ (if 5 < length (di_multimedia_info d) then [multimedia_marker] else [])
   \<and> length (map multimedia_line (take 5 (di_multimedia_info d)))
        = min (length (di_multimedia_info d)) 5
   \<and> example_marker \<noteq> multimedia_marker
   \<and> definition_loop idx (d # ds) =
      definition_line idx d
        # (map example_line (take 5 (di_example_info d))
            @ (if 5 < length (di_example_info d) then [example_marker] else []))
        @ (map multimedia_line (take 5 (di_multimedia_info d))
            @ (if 5 < length (di_multimedia_info d) then [multimedia_marker] else []))
        @ definition_loop (idx + 1) ds
   \<and> (t \<in> {''view'', ''scraped_view''} \<and> vd_results vd = res # rest \<longrightarrow>
      display_results (ViewResponse t vd) =
        (header_line (vr_word_info res) # vd_url vd
           # concat (map (\<lambda>(i, d).
               definition_line i d
                 # (map example_line (take 5 (di_example_info d))
                     @ (if 5 < length (di_example_info d) then [example_marker] else []))
                 @ (map multimedia_line (take 5 (di_multimedia_info d))
                     @ (if 5 < length (di_multimedia_info d) then [multimedia_marker] else [])))
               (enumerate 0 (wi_definition_info (vr_word_info res)))), None))"
proof -
  have old: "example_loop 0 (di_example_info d) =
      map example_line (take 5 (di_example_info d))
        @ (if 5 < length (di_example_info d) then [example_marker] else [])
   \<and> length (map example_line (take 5 (di_example_info d)))
        = min (length (di_example_info d)) 5
   \<and> multimedia_loop 0 (di_multimedia_info d) =
      map multimedia_line (take 5 (di_multimedia_info d))
        @ (if 5 < length (di_multimedia_info d) then [multimedia_marker] else [])
   \<and> length (map multimedia_line (take 5 (di_multimedia_info d)))
        = min (length (di_multimedia_info d)) 5
   \<and> example_marker \<noteq> multimedia_marker
   \<and> definition_loop idx (d # ds) =
      definition_line idx d
        # (map example_line (take 5 (di_example_info d))
            @ (if 5 < length (di_example_info d) then [example_marker] else []))
        @ (map multimedia_line (take 5 (di_multimedia_info d))
            @ (if 5 < length (di_multimedia_info d) then [multimedia_marker] else []))
        @ definition_loop (idx + 1) ds"
  proof -
    have e: "example_loop 0 (di_example_info d) =
        map example_line (take 5 (di_example_info d))
          @ (if 5 < length (di_example_info d) then [example_marker] else [])"
      using example_loop_take [of 0 "di_example_info d"] by simp
    have m: "multimedia_loop 0 (di_multimedia_info d) =
        map multimedia_line (take 5 (di_multimedia_info d))
          @ (if 5 < length (di_multimedia_info d) then [multimedia_marker] else [])"
      using multimedia_loop_take [of 0 "di_multimedia_info d"] by simp
    have ne: "example_marker \<noteq> multimedia_marker"
      by (simp add: example_marker_def multimedia_marker_def bullet_def pointer_def)
    have l: "definition_loop idx (d # ds) =
        definition_line idx d # example_loop 0 (di_example_info d)
          @ multimedia_loop 0 (di_multimedia_info d) @ definition_loop (idx + 1) ds"
      by simp
    show ?thesis
      unfolding l using e m ne by (simp add: min.commute)
  qed
  have new: "(t \<in> {''view'', ''scraped_view''} \<and> vd_results vd = res # rest \<longrightarrow>
      display_results (ViewResponse t vd) =
        (header_line (vr_word_info res) # vd_url vd
           # concat (map (\<lambda>(i, d).
               definition_line i d
                 # (map example_line (take 5 (di_example_info d))
                     @ (if 5 < length (di_example_info d) then [example_marker] else []))
                 @ (map multimedia_line (take 5 (di_multimedia_info d))
                     @ (if 5 < length (di_multimedia_info d) then [multimedia_marker] else [])))
               (enumerate 0 (wi_definition_info (vr_word_info res)))), None))"
    by (simp add: display_view_lines definition_loop_blocks example_loop_0 multimedia_loop_0)
  from old new show ?thesis by (elim conjE, intro conjI) assumption+
qed

theorem truncation_bound_witness:
  "(definition_loop 0
     [\<lparr>di_definition = ''tree'', di_translations = [],
       di_example_info = map (\<lambda>s. \<lparr>ei_example = s\<rparr>)
          [''e1'', ''e2'', ''e3'', ''e4'', ''e5'', ''e6'', ''e7''],
       di_multimedia_info =
          [\<lparr>mi_url = ''u1'', mi_content_urls = None, mi_type = ''photo''\<rparr>,
           \<lparr>mi_url = ''u2'', mi_content_urls = None, mi_type = ''video''\<rparr>]\<rparr>]
   = [''1. tree'',
      ''   '' @ bullet @ '' e1'', ''   '' @ bullet @ '' e2'', ''   '' @ bullet @ '' e3'',
      ''   '' @ bullet @ '' e4'', ''   '' @ bullet @ '' e5'', ''   '' @ bullet @ '' ...'',
      ''   '' @ pointer @ '' u1 (photo)'', ''   '' @ pointer @ '' u2 (video)''])
   \<and> display_results (ViewResponse ''view''
      \<lparr>vd_url = ''https://krdict/42075'', vd_total_results = 1,
       vd_results = [\<lparr>vr_word_info = \<lparr>wi_word = ''namu'', wi_part_of_speech = ''noun'',
          wi_original_language_info = [], wi_pronunciation_info = [],
          wi_definition_info = [\<lparr>di_definition = ''tree'', di_translations = [],
            di_example_info = map (\<lambda>s. \<lparr>ei_example = s\<rparr>)
              [''e1'', ''e2'', ''e3'', ''e4'', ''e5'', ''e6'', ''e7''],
            di_multimedia_info =
              [\<lparr>mi_url = ''u1'', mi_content_urls = None, mi_type = ''photo''\<rparr>,
               \<lparr>mi_url = ''u2'', mi_content_urls = None, mi_type = ''video''\<rparr>]\<rparr>]\<rparr>\<rparr>]\<rparr>)
     = ([''namu '' @ lbracket @ ''noun'' @ rbracket, ''https://krdict/42075'', ''1. tree'',
         ''   '' @ bullet @ '' e1'', ''   '' @ bullet @ '' e2'', ''   '' @ bullet @ '' e3'',
         ''   '' @ bullet @ '' e4'', ''   '' @ bullet @ '' e5'', ''   '' @ bullet @ '' ...'',
         ''   '' @ pointer @ '' u1 (photo)'', ''   '' @ pointer @ '' u2 (video)''], None)"
proof -
  have old: "definition_loop 0
     [\<lparr>di_definition = ''tree'', di_translations = [],
       di_example_info = map (\<lambda>s. \<lparr>ei_example = s\<rparr>)
          [''e1'', ''e2'', ''e3'', ''e4'', ''e5'', ''e6'', ''e7''],
       di_multimedia_info =
          [\<lparr>mi_url = ''u1'', mi_content_urls = None, mi_type = ''photo''\<rparr>,
           \<lparr>mi_url = ''u2'', mi_content_urls = None, mi_type = ''video''\<rparr>]\<rparr>]
   = [''1. tree'',
      ''   '' @ bullet @ '' e1'', ''   '' @ bullet @ '' e2'', ''   '' @ bullet @ '' e3'',
      ''   '' @ bullet @ '' e4'', ''   '' @ bullet @ '' e5'', ''   '' @ bullet @ '' ...'',
      ''   '' @ pointer @ '' u1 (photo)'', ''   '' @ pointer @ '' u2 (video)'']"
    using truncation_bound [of
       "\<lparr>di_definition = ''tree'', di_translations = [],
         di_example_info = map (\<lambda>s. \<lparr>ei_example = s\<rparr>)
            [''e1'', ''e2'', ''e3'', ''e4'', ''e5'', ''e6'', ''e7''],
         di_multimedia_info =
            [\<lparr>mi_url = ''u1'', mi_content_urls = None, mi_type = ''photo''\<rparr>,
             \<lparr>mi_url = ''u2'', mi_content_urls = None, mi_type = ''video''\<rparr>]\<rparr>" 0 "[]"]
    by (simp add: definition_line_def example_line_def example_marker_def multimedia_line_def
        str_nat.simps digit_chars_def)
  have new: "display_results (ViewResponse ''view''
      \<lparr>vd_url = ''https://krdict/42075'', vd_total_results = 1,
       vd_results = [\<lparr>vr_word_info = \<lparr>wi_word = ''namu'', wi_part_of_speech = ''noun'',
          wi_original_language_info = [], wi_pronunciation_info = [],
          wi_definition_info = [\<lparr>di_definition = ''tree'', di_translations = [],
            di_example_info = map (\<lambda>s. \<lparr>ei_example = s\<rparr>)
              [''e1'', ''e2'', ''e3'', ''e4'', ''e5'', ''e6'', ''e7''],
            di_multimedia_info =
              [\<lparr>mi_url = ''u1'', mi_content_urls = None, mi_type = ''photo''\<rparr>,
               \<lparr>mi_url = ''u2'', mi_content_urls = None, mi_type = ''video''\<rparr>]\<rparr>]\<rparr>\<rparr>]\<rparr>)
     = ([''namu '' @ lbracket @ ''noun'' @ rbracket, ''https://krdict/42075'', ''1. tree'',
         ''   '' @ bullet @ '' e1'', ''   '' @ bullet @ '' e2'', ''   '' @ bullet @ '' e3'',
         ''   '' @ bullet @ '' e4'', ''   '' @ bullet @ '' e5'', ''   '' @ bullet @ '' ...'',
         ''   '' @ pointer @ '' u1 (photo)'', ''   '' @ pointer @ '' u2 (video)''], None)"
    using truncation_bound [where t = "''view''" and vd = "\<lparr>vd_url = ''https://krdict/42075'', vd_total_results = 1,
       vd_results = [\<lparr>vr_word_info = \<lparr>wi_word = ''namu'', wi_part_of_speech = ''noun'',
          wi_original_language_info = [], wi_pronunciation_info = [],
          wi_definition_info = [\<lparr>di_definition = ''tree'', di_translations = [],
            di_example_info = map (\<lambda>s. \<lparr>ei_example = s\<rparr>)
              [''e1'', ''e2'', ''e3'', ''e4'', ''e5'', ''e6'', ''e7''],
            di_multimedia_info =
              [\<lparr>mi_url = ''u1'', mi_content_urls = None, mi_type = ''photo''\<rparr>,
               \<lparr>mi_url = ''u2'', mi_content_urls = None, mi_type = ''video''\<rparr>]\<rparr>]\<rparr>\<rparr>]\<rparr>"
        and res = "\<lparr>vr_word_info = \<lparr>wi_word = ''namu'', wi_part_of_speech = ''noun'',
          wi_original_language_info = [], wi_pronunciation_info = [],
          wi_definition_info = [\<lparr>di_definition = ''tree'', di_translations = [],
            di_example_info = map (\<lambda>s. \<lparr>ei_example = s\<rparr>)
              [''e1'', ''e2'', ''e3'', ''e4'', ''e5'', ''e6'', ''e7''],
            di_multimedia_info =
              [\<lparr>mi_url = ''u1'', mi_content_urls = None, mi_type = ''photo''\<rparr>,
               \<lparr>mi_url = ''u2'', mi_content_urls = None, mi_type = ''video''\<rparr>]\<rparr>]\<rparr>\<rparr>" and rest = "[]"]
    by (simp add: header_line_def origin_of_def definition_line_def example_line_def example_marker_def
        multimedia_line_def str_nat.simps digit_chars_def)
  show ?thesis by (rule conjI [OF old new])
qed

text \<open>
  C3. Pronunciation joining. With \<open>k\<close> pronunciation entries the header line ends with the
  bracketed segment made of the \<open>k\<close> pronunciations, each followed by \<open>" (url)"\<close> when it has
  a url, joined by slashes: \<open>k - 1\<close> separators, so the segment is \<open>k - 1\<close> characters longer
  than the pronunciations together and, when no pronunciation or url contains a slash
  itself, has exactly \<open>k - 1\<close> slashes. With \<open>k = 0\<close> the header has no bracketed segment.
  This header is the first line \<open>_display_results\<close> prints for a view response.
\<close>

theorem pronunciation_joining:
  "header_line wi =
      wi_word wi @ '' '' @ lbracket @ wi_part_of_speech wi @ rbracket
        @ (if origin_of (wi_original_language_info wi) \<noteq> []
           then '' ('' @ origin_of (wi_original_language_info wi) @ '')'' else [])
        @ (if wi_pronunciation_info wi = [] then []
           else '' ['' @ py_join ''/'' (map pronunciation_piece (wi_pronunciation_info wi))
                  @ '']'')
   \<and> (wi_pronunciation_info wi \<noteq> [] \<longrightarrow>
        length (py_join ''/'' (map pronunciation_piece (wi_pronunciation_info wi)))
          = sum_list (map (\<lambda>p. length (pronunciation_piece p)) (wi_pronunciation_info wi))
            + (length (wi_pronunciation_info wi) - 1))
   \<and> (wi_pronunciation_info wi \<noteq> []
        \<and> (\<forall>p\<in>set (wi_pronunciation_info wi). CHR ''/'' \<notin> set (pronunciation_piece p)) \<longrightarrow>
        count_list (py_join ''/'' (map pronunciation_piece (wi_pronunciation_info wi)))
          CHR ''/'' = length (wi_pronunciation_info wi) - 1)
   \<and> (t \<in> {''view'', ''scraped_view''} \<and> vd_results vd = res # rest \<and> vr_word_info res = wi \<longrightarrow>
      (\<exists>ls. display_results (ViewResponse t vd) =
        ((wi_word wi @ '' '' @ lbracket @ wi_part_of_speech wi @ rbracket
            @ (if origin_of (wi_original_language_info wi) \<noteq> []
               then '' ('' @ origin_of (wi_original_language_info wi) @ '')'' else [])
            @ (if wi_pronunciation_info wi = [] then []
               else '' ['' @ py_join ''/'' (map pronunciation_piece (wi_pronunciation_info wi))
                      @ '']'')) # ls, None)))"
proof -
  have old: "header_line wi =
      wi_word wi @ '' '' @ lbracket @ wi_part_of_speech wi @ rbracket
        @ (if origin_of (wi_original_language_info wi) \<noteq> []
           then '' ('' @ origin_of (wi_original_language_info wi) @ '')'' else [])
        @ (if wi_pronunciation_info wi = [] then []
           else '' ['' @ py_join ''/'' (map pronunciation_piece (wi_pronunciation_info wi))
                  @ '']'')
   \<and> (wi_pronunciation_info wi \<noteq> [] \<longrightarrow>
        length (py_join ''/'' (map pronunciation_piece (wi_pronunciation_info wi)))
          = sum_list (map (\<lambda>p. length (pronunciation_piece p)) (wi_pronunciation_info wi))
            + (length (wi_pronunciation_info wi) - 1))
   \<and> (wi_pronunciation_info wi \<noteq> []
        \<and> (\<forall>p\<in>set (wi_pronunciation_info wi). CHR ''/'' \<notin> set (pronunciation_piece p)) \<longrightarrow>
        count_list (py_join ''/'' (map pronunciation_piece (wi_pronunciation_info wi)))
          CHR ''/'' = length (wi_pronunciation_info wi) - 1)"
  proof (intro conjI impI)
    let ?ps = "wi_pronunciation_info wi"
    have "py_join [] (pronunciation_loop [] ?ps) = py_join ''/'' (map pronunciation_piece ?ps)"
      using pronunciation_loop_concat [of "[]" ?ps] by (simp add: py_join_empty_sep)
    moreover have "pronunciation_loop [] ?ps \<noteq> [] \<longleftrightarrow> ?ps \<noteq> []"
      by (simp add: pronunciation_loop_empty)
    ultimately show "header_line wi =
        wi_word wi @ '' '' @ lbracket @ wi_part_of_speech wi @ rbracket
          @ (if origin_of (wi_original_language_info wi) \<noteq> []
             then '' ('' @ origin_of (wi_original_language_info wi) @ '')'' else [])
          @ (if ?ps = [] then []
             else '' ['' @ py_join ''/'' (map pronunciation_piece ?ps) @ '']'')"
      by (simp add: header_line_def Let_def)
  next
    assume "wi_pronunciation_info wi \<noteq> []"
    then show "length (py_join ''/'' (map pronunciation_piece (wi_pronunciation_info wi)))
            = sum_list (map (\<lambda>p. length (pronunciation_piece p)) (wi_pronunciation_info wi))
              + (length (wi_pronunciation_info wi) - 1)"
      using length_py_join [of "map pronunciation_piece (wi_pronunciation_info wi)" "''/''"]
      by (simp add: comp_def)
  next
    assume a: "wi_pronunciation_info wi \<noteq> []
          \<and> (\<forall>p\<in>set (wi_pronunciation_info wi). CHR ''/'' \<notin> set (pronunciation_piece p))"
    then show "count_list (py_join ''/'' (map pronunciation_piece (wi_pronunciation_info wi)))
            CHR ''/'' = length (wi_pronunciation_info wi) - 1"
      using count_py_join [of "map pronunciation_piece (wi_pronunciation_info wi)" "CHR ''/''"]
      by simp
  qed
  have new: "(t \<in> {''view'', ''scraped_view''} \<and> vd_results vd = res # rest \<and> vr_word_info res = wi \<longrightarrow>
      (\<exists>ls. display_results (ViewResponse t vd) =
        ((wi_word wi @ '' '' @ lbracket @ wi_part_of_speech wi @ rbracket
            @ (if origin_of (wi_original_language_info wi) \<noteq> []
               then '' ('' @ origin_of (wi_original_language_info wi) @ '')'' else [])
            @ (if wi_pronunciation_info wi = [] then []
               else '' ['' @ py_join ''/'' (map pronunciation_piece (wi_pronunciation_info wi))
                      @ '']'')) # ls, None)))"
  proof (intro impI)
    assume a: "t \<in> {''view'', ''scraped_view''} \<and> vd_results vd = res # rest
        \<and> vr_word_info res = wi"
    then have "display_results (ViewResponse t vd) =
        (header_line wi # vd_url vd # definition_loop 0 (wi_definition_info wi), None)"
      using display_view_lines [of t vd res rest] by simp
    then show "\<exists>ls. display_results (ViewResponse t vd) =
        ((wi_word wi @ '' '' @ lbracket @ wi_part_of_speech wi @ rbracket
            @ (if origin_of (wi_original_language_info wi) \<noteq> []
               then '' ('' @ origin_of (wi_original_language_info wi) @ '')'' else [])
            @ (if wi_pronunciation_info wi = [] then []
               else '' ['' @ py_join ''/'' (map pronunciation_piece (wi_pronunciation_info wi))
                      @ '']'')) # ls, None)"
      using old by (simp only: prod.inject list.inject simp_thms ex_simps)
  qed
  from old new show ?thesis by (elim conjE, intro conjI) assumption+
qed

theorem pronunciation_joining_witness:
  "(header_line \<lparr>wi_word = ''namu'', wi_part_of_speech = ''noun'',
       wi_original_language_info = [],
       wi_pronunciation_info =
         [\<lparr>pi_pronunciation = ''na-mu'', pi_url = Some ''a.mp3''\<rparr>,
          \<lparr>pi_pronunciation = ''nam-gu'', pi_url = None\<rparr>,
          \<lparr>pi_pronunciation = ''nang-gu'', pi_url = None\<rparr>],
       wi_definition_info = []\<rparr>
     = ''namu '' @ lbracket @ ''noun'' @ rbracket @ '' [na-mu (a.mp3)/nam-gu/nang-gu]''
   \<and> count_list ''na-mu (a.mp3)/nam-gu/nang-gu'' CHR ''/'' = 2
   \<and> header_line \<lparr>wi_word = ''namu'', wi_part_of_speech = ''noun'',
       wi_original_language_info = [], wi_pronunciation_info = [],
       wi_definition_info = []\<rparr>
     = ''namu '' @ lbracket @ ''noun'' @ rbracket)
   \<and> display_results (ViewResponse ''view''
      \<lparr>vd_url = ''https://krdict/42075'', vd_total_results = 1,
       vd_results = [\<lparr>vr_word_info = \<lparr>wi_word = ''namu'', wi_part_of_speech = ''noun'',
          wi_original_language_info = [], wi_pronunciation_info = [\<lparr>pi_pronunciation = ''na-mu'', pi_url = Some ''a.mp3''\<rparr>,
             \<lparr>pi_pronunciation = ''nam-gu'', pi_url = None\<rparr>,
             \<lparr>pi_pronunciation = ''nang-gu'', pi_url = None\<rparr>],
          wi_definition_info = []\<rparr>\<rparr>]\<rparr>)
     = ([''namu '' @ lbracket @ ''noun'' @ rbracket @ '' [na-mu (a.mp3)/nam-gu/nang-gu]'',
         ''https://krdict/42075''], None)"
proof -
  have old: "header_line \<lparr>wi_word = ''namu'', wi_part_of_speech = ''noun'',
       wi_original_language_info = [],
       wi_pronunciation_info =
         [\<lparr>pi_pronunciation = ''na-mu'', pi_url = Some ''a.mp3''\<rparr>,
          \<lparr>pi_pronunciation = ''nam-gu'', pi_url = None\<rparr>,
          \<lparr>pi_pronunciation = ''nang-gu'', pi_url = None\<rparr>],
       wi_definition_info = []\<rparr>
     = ''namu '' @ lbracket @ ''noun'' @ rbracket @ '' [na-mu (a.mp3)/nam-gu/nang-gu]''
   \<and> count_list ''na-mu (a.mp3)/nam-gu/nang-gu'' CHR ''/'' = 2
   \<and> header_line \<lparr>wi_word = ''namu'', wi_part_of_speech = ''noun'',
       wi_original_language_info = [], wi_pronunciation_info = [],
       wi_definition_info = []\<rparr>
     = ''namu '' @ lbracket @ ''noun'' @ rbracket"
    using pronunciation_joining [of "\<lparr>wi_word = ''namu'', wi_part_of_speech = ''noun'',
         wi_original_language_info = [],
         wi_pronunciation_info =
           [\<lparr>pi_pronunciation = ''na-mu'', pi_url = Some ''a.mp3''\<rparr>,
            \<lparr>pi_pronunciation = ''nam-gu'', pi_url = None\<rparr>,
            \<lparr>pi_pronunciation = ''nang-gu'', pi_url = None\<rparr>],
         wi_definition_info = []\<rparr>"]
      pronunciation_joining [of "\<lparr>wi_word = ''namu'', wi_part_of_speech = ''noun'',
         wi_original_language_info = [], wi_pronunciation_info = [],
         wi_definition_info = []\<rparr>"]
    by (simp add: origin_of_def pronunciation_piece_def)
  have new: "display_results (ViewResponse ''view''
      \<lparr>vd_url = ''https://krdict/42075'', vd_total_results = 1,
       vd_results = [\<lparr>vr_word_info = \<lparr>wi_word = ''namu'', wi_part_of_speech = ''noun'',
          wi_original_language_info = [], wi_pronunciation_info = [\<lparr>pi_pronunciation = ''na-mu'', pi_url = Some ''a.mp3''\<rparr>,
             \<lparr>pi_pronunciation = ''nam-gu'', pi_url = None\<rparr>,
             \<lparr>pi_pronunciation = ''nang-gu'', pi_url = None\<rparr>],
          wi_definition_info = []\<rparr>\<rparr>]\<rparr>)
     = ([''namu '' @ lbracket @ ''noun'' @ rbracket @ '' [na-mu (a.mp3)/nam-gu/nang-gu]'',
         ''https://krdict/42075''], None)"
    using pronunciation_joining [where t = "''view''" and vd = "\<lparr>vd_url = ''https://krdict/42075'', vd_total_results = 1,
       vd_results = [\<lparr>vr_word_info = \<lparr>wi_word = ''namu'', wi_part_of_speech = ''noun'',
          wi_original_language_info = [], wi_pronunciation_info = [\<lparr>pi_pronunciation = ''na-mu'', pi_url = Some ''a.mp3''\<rparr>,
             \<lparr>pi_pronunciation = ''nam-gu'', pi_url = None\<rparr>,
             \<lparr>pi_pronunciation = ''nang-gu'', pi_url = None\<rparr>],
          wi_definition_info = []\<rparr>\<rparr>]\<rparr>"
        and res = "\<lparr>vr_word_info = \<lparr>wi_word = ''namu'', wi_part_of_speech = ''noun'',
          wi_original_language_info = [], wi_pronunciation_info = [\<lparr>pi_pronunciation = ''na-mu'', pi_url = Some ''a.mp3''\<rparr>,
             \<lparr>pi_pronunciation = ''nam-gu'', pi_url = None\<rparr>,
             \<lparr>pi_pronunciation = ''nang-gu'', pi_url = None\<rparr>],
          wi_definition_info = []\<rparr>\<rparr>" and rest = "[]" and wi = "\<lparr>wi_word = ''namu'', wi_part_of_speech = ''noun'',
          wi_original_language_info = [], wi_pronunciation_info = [\<lparr>pi_pronunciation = ''na-mu'', pi_url = Some ''a.mp3''\<rparr>,
             \<lparr>pi_pronunciation = ''nam-gu'', pi_url = None\<rparr>,
             \<lparr>pi_pronunciation = ''nang-gu'', pi_url = None\<rparr>],
          wi_definition_info = []\<rparr>"]
    by (simp add: origin_of_def pronunciation_piece_def display_results_def header_line_def)
  show ?thesis by (rule conjI [OF old new])
qed

text \<open>
  C8. The detail renderer needs a result. For a response tagged \<open>view\<close> or \<open>scraped_view\<close>
  whose results are empty, rendering stops with \<open>IndexError\<close> at \<open>data.results[0]\<close>, and
  nothing has been printed.
\<close>

theorem view_without_result_faults:
  assumes "response_type r \<in> {''view'', ''scraped_view''}" and "num_results r = 0"
  shows "display_results r = ([], Some IndexError)
    \<and> display_view_results r = ([], Some IndexError)"
  using assms by (cases r) (simp_all add: display_results_def)

theorem view_without_result_faults_witness:
  "display_results (ViewResponse ''view'' \<lparr>vd_url = ''https://krdict'', vd_total_results = 0, vd_results = []\<rparr>)
     = ([], Some IndexError)
   \<and> display_results (ViewResponse ''scraped_view''
        \<lparr>vd_url = ''https://krdict'', vd_total_results = 0, vd_results = []\<rparr>) = ([], Some IndexError)"
  using view_without_result_faults
      [of "ViewResponse ''view'' \<lparr>vd_url = ''https://krdict'', vd_total_results = 0, vd_results = []\<rparr>"]
    view_without_result_faults
      [of "ViewResponse ''scraped_view'' \<lparr>vd_url = ''https://krdict'', vd_total_results = 0, vd_results = []\<rparr>"]
  by simp

text \<open>
  C9. Choice of the multimedia form. The comma-joined content urls are printed only when
  \<open>content_urls\<close> is present and not empty. When it is present but empty (or absent), the
  line shows the single \<open>url\<close> followed by the type tag. Every multimedia entry among the
  first five of a definition is printed by this rule, also in what \<open>_display_results\<close>
  prints for a view response.
\<close>

theorem multimedia_form_choice:
  "(mi_content_urls m = Some [] \<longrightarrow>
      multimedia_line m = ''   '' @ pointer @ '' '' @ mi_url m @ '' ('' @ mi_type m @ '')'')
   \<and> (mi_content_urls m = None \<longrightarrow>
      multimedia_line m = ''   '' @ pointer @ '' '' @ mi_url m @ '' ('' @ mi_type m @ '')'')
   \<and> (\<forall>u us. mi_content_urls m = Some (u # us) \<longrightarrow>
      multimedia_line m =
        ''   '' @ pointer @ '' '' @ py_join '','' (u # us) @ '' ('' @ mi_type m @ '')'')
   \<and> (\<forall>i. i < length ms \<and> i < 5 \<longrightarrow> multimedia_loop 0 ms ! i = multimedia_line (ms ! i))
   \<and> (t \<in> {''view'', ''scraped_view''} \<and> vd_results vd = res # rest \<longrightarrow>
      display_results (ViewResponse t vd) =
        (header_line (vr_word_info res) # vd_url vd
           # concat (map (\<lambda>(i, d).
               definition_line i d # example_loop 0 (di_example_info d)
                 @ map (\<lambda>m. ''   '' @ pointer @ '' ''
                          @ (case mi_content_urls m of
                               Some (u # us) \<Rightarrow> py_join '','' (u # us)
                             | _ \<Rightarrow> mi_url m)
                          @ '' ('' @ mi_type m @ '')'')
                     (take 5 (di_multimedia_info d))
                 @ (if 5 < length (di_multimedia_info d) then [multimedia_marker] else []))
               (enumerate 0 (wi_definition_info (vr_word_info res)))), None))"
proof -
  have old: "(mi_content_urls m = Some [] \<longrightarrow>
      multimedia_line m = ''   '' @ pointer @ '' '' @ mi_url m @ '' ('' @ mi_type m @ '')'')
   \<and> (mi_content_urls m = None \<longrightarrow>
      multimedia_line m = ''   '' @ pointer @ '' '' @ mi_url m @ '' ('' @ mi_type m @ '')'')
   \<and> (\<forall>u us. mi_content_urls m = Some (u # us) \<longrightarrow>
      multimedia_line m =
        ''   '' @ pointer @ '' '' @ py_join '','' (u # us) @ '' ('' @ mi_type m @ '')'')
   \<and> (\<forall>i. i < length ms \<and> i < 5 \<longrightarrow> multimedia_loop 0 ms ! i = multimedia_line (ms ! i))"
  proof -
    have "multimedia_loop 0 ms ! i = multimedia_line (ms ! i)" if "i < length ms" "i < 5" for i
      using that multimedia_loop_take [of 0 ms] by (simp add: nth_append)
    then show ?thesis
      by (simp add: multimedia_line_def)
  qed
  have new: "(t \<in> {''view'', ''scraped_view''} \<and> vd_results vd = res # rest \<longrightarrow>
      display_results (ViewResponse t vd) =
        (header_line (vr_word_info res) # vd_url vd
           # concat (map (\<lambda>(i, d).
               definition_line i d # example_loop 0 (di_example_info d)
                 @ map (\<lambda>m. ''   '' @ pointer @ '' ''
                          @ (case mi_content_urls m of
                               Some (u # us) \<Rightarrow> py_join '','' (u # us)
                             | _ \<Rightarrow> mi_url m)
                          @ '' ('' @ mi_type m @ '')'')
                     (take 5 (di_multimedia_info d))
                 @ (if 5 < length (di_multimedia_info d) then [multimedia_marker] else []))
               (enumerate 0 (wi_definition_info (vr_word_info res)))), None))"
    by (simp add: display_view_lines definition_loop_blocks multimedia_loop_0
        multimedia_line_fun)
  from old new show ?thesis by (elim conjE, intro conjI) assumption+
qed

theorem multimedia_form_choice_witness:
  "(multimedia_loop 0
     [\<lparr>mi_url = ''u1'', mi_content_urls = Some [], mi_type = ''photo''\<rparr>,
      \<lparr>mi_url = ''u2'', mi_content_urls = Some [''a'', ''b''], mi_type = ''video''\<rparr>]
   = [''   '' @ pointer @ '' u1 (photo)'', ''   '' @ pointer @ '' a,b (video)''])
   \<and> display_results (ViewResponse ''scraped_view''
      \<lparr>vd_url = ''https://krdict/42075'', vd_total_results = 1,
       vd_results = [\<lparr>vr_word_info = \<lparr>wi_word = ''namu'', wi_part_of_speech = ''noun'',
          wi_original_language_info = [], wi_pronunciation_info = [],
          wi_definition_info = [\<lparr>di_definition = ''tree'', di_translations = [],
            di_example_info = [],
            di_multimedia_info =
              [\<lparr>mi_url = ''u1'', mi_content_urls = Some [], mi_type = ''photo''\<rparr>,
               \<lparr>mi_url = ''u2'', mi_content_urls = Some [''a'', ''b''],
                mi_type = ''video''\<rparr>]\<rparr>]\<rparr>\<rparr>]\<rparr>)
     = ([''namu '' @ lbracket @ ''noun'' @ rbracket, ''https://krdict/42075'', ''1. tree'',
         ''   '' @ pointer @ '' u1 (photo)'', ''   '' @ pointer @ '' a,b (video)''], None)"
proof -
  have old: "multimedia_loop 0
     [\<lparr>mi_url = ''u1'', mi_content_urls = Some [], mi_type = ''photo''\<rparr>,
      \<lparr>mi_url = ''u2'', mi_content_urls = Some [''a'', ''b''], mi_type = ''video''\<rparr>]
   = [''   '' @ pointer @ '' u1 (photo)'', ''   '' @ pointer @ '' a,b (video)'']"
  proof -
    let ?m1 = "\<lparr>mi_url = ''u1'', mi_content_urls = Some [], mi_type = ''photo''\<rparr>"
    let ?m2 = "\<lparr>mi_url = ''u2'', mi_content_urls = Some [''a'', ''b''], mi_type = ''video''\<rparr>"
    have a: "multimedia_line ?m1 = ''   '' @ pointer @ '' u1 (photo)''"
      and n0: "multimedia_loop 0 [?m1, ?m2] ! 0 = multimedia_line ([?m1, ?m2] ! 0)"
      and n1: "multimedia_loop 0 [?m1, ?m2] ! 1 = multimedia_line ([?m1, ?m2] ! 1)"
      using multimedia_form_choice [of ?m1 "[?m1, ?m2]"] by simp_all
    have b: "multimedia_line ?m2 = ''   '' @ pointer @ '' a,b (video)''"
      using multimedia_form_choice [of ?m2 "[]"] by simp
    have len: "length (multimedia_loop 0 [?m1, ?m2]) = 2"
      by simp
    show ?thesis
    proof (rule nth_equalityI)
      show "length (multimedia_loop 0 [?m1, ?m2])
          = length [''   '' @ pointer @ '' u1 (photo)'', ''   '' @ pointer @ '' a,b (video)'']"
        using len by simp
    next
      fix i assume "i < length (multimedia_loop 0 [?m1, ?m2])"
      then have "i = 0 \<or> i = 1" using len by auto
      then show "multimedia_loop 0 [?m1, ?m2] ! i
          = [''   '' @ pointer @ '' u1 (photo)'', ''   '' @ pointer @ '' a,b (video)''] ! i"
        using n0 n1 a b by auto
    qed
  qed
  have new: "display_results (ViewResponse ''scraped_view''
      \<lparr>vd_url = ''https://krdict/42075'', vd_total_results = 1,
       vd_results = [\<lparr>vr_word_info = \<lparr>wi_word = ''namu'', wi_part_of_speech = ''noun'',
          wi_original_language_info = [], wi_pronunciation_info = [],
          wi_definition_info = [\<lparr>di_definition = ''tree'', di_translations = [],
            di_example_info = [],
            di_multimedia_info =
              [\<lparr>mi_url = ''u1'', mi_content_urls = Some [], mi_type = ''photo''\<rparr>,
               \<lparr>mi_url = ''u2'', mi_content_urls = Some [''a'', ''b''],
                mi_type = ''video''\<rparr>]\<rparr>]\<rparr>\<rparr>]\<rparr>)
     = ([''namu '' @ lbracket @ ''noun'' @ rbracket, ''https://krdict/42075'', ''1. tree'',
         ''   '' @ pointer @ '' u1 (photo)'', ''   '' @ pointer @ '' a,b (video)''], None)"
    using multimedia_form_choice [where t = "''scraped_view''" and vd = "\<lparr>vd_url = ''https://krdict/42075'', vd_total_results = 1,
       vd_results = [\<lparr>vr_word_info = \<lparr>wi_word = ''namu'', wi_part_of_speech = ''noun'',
          wi_original_language_info = [], wi_pronunciation_info = [],
          wi_definition_info = [\<lparr>di_definition = ''tree'', di_translations = [],
            di_example_info = [],
            di_multimedia_info =
              [\<lparr>mi_url = ''u1'', mi_content_urls = Some [], mi_type = ''photo''\<rparr>,
               \<lparr>mi_url = ''u2'', mi_content_urls = Some [''a'', ''b''],
                mi_type = ''video''\<rparr>]\<rparr>]\<rparr>\<rparr>]\<rparr>"
        and res = "\<lparr>vr_word_info = \<lparr>wi_word = ''namu'', wi_part_of_speech = ''noun'',
          wi_original_language_info = [], wi_pronunciation_info = [],
          wi_definition_info = [\<lparr>di_definition = ''tree'', di_translations = [],
            di_example_info = [],
            di_multimedia_info =
              [\<lparr>mi_url = ''u1'', mi_content_urls = Some [], mi_type = ''photo''\<rparr>,
               \<lparr>mi_url = ''u2'', mi_content_urls = Some [''a'', ''b''],
                mi_type = ''video''\<rparr>]\<rparr>]\<rparr>\<rparr>" and rest = "[]"]
    by (simp add: header_line_def origin_of_def definition_line_def multimedia_marker_def
        str_nat.simps digit_chars_def)
  show ?thesis by (rule conjI [OF old new])
qed

section \<open>Properties of the formatter\<close>









lemma word_result_loop_lines:
  "\<forall>r\<in>set rs. wr_definitions r \<noteq> [] \<Longrightarrow>
   word_result_loop idx rs =
     (concat (map (\<lambda>(i, r). entry_lines i (wr_word r) (wr_origin r) (hd (wr_definitions r)))
        (enumerate idx rs)), None)"
proof (induction rs arbitrary: idx)
  case Nil
  show ?case by simp
next
  case (Cons r rs)
  then obtain fd ds where "wr_definitions r = fd # ds"
    by (cases "wr_definitions r") auto
  then show ?case using Cons.IH [of "idx + 1"] Cons.prems by simp
qed

lemma definition_result_loop_lines:
  "definition_result_loop idx rs =
     (concat (map (\<lambda>(i, r). entry_lines i (dr_word r) (dr_origin r) (dr_definition_info r))
        (enumerate idx rs)), None)"
proof (induction rs arbitrary: idx)
  case Nil
  show ?case by simp
next
  case (Cons r rs)
  show ?case using Cons.IH [of "idx + 1"] by simp
qed

section \<open>Claims about the formatter\<close>




text \<open>
  C6. The list renderer. After the summary line, each result gives, in order: one line with
  its 1-based index, the headword, the origin in parentheses (left out exactly when the
  origin is absent or empty) and the text of its first definition only; then one line
  \<open>word: definition\<close> for every translation of that definition, none left out. For a
  definition-search response the entry's own \<open>definition_info\<close> is the first definition;
  otherwise it is \<open>definitions[0]\<close>.
\<close>

theorem list_renderer_lines:
  "(t \<notin> {''view'', ''scraped_view''} \<and> (\<forall>r\<in>set (results d). wr_definitions r \<noteq> []) \<longrightarrow>
      display_results (SearchResponse t d) =
        (summary_line (total_results d)
           # concat (map (\<lambda>(i, r).
               entry_lines i (wr_word r) (wr_origin r) (hd (wr_definitions r)))
               (enumerate 0 (results d))), None))
   \<and> (t \<notin> {''view'', ''scraped_view''} \<longrightarrow>
      display_results (DefinitionResponse t dd) =
        (summary_line (total_results dd)
           # concat (map (\<lambda>(i, r).
               entry_lines i (dr_word r) (dr_origin r) (dr_definition_info r))
               (enumerate 0 (results dd))), None))
   \<and> entry_lines i w og fd =
        (str_nat (i + 1) @ ''. '' @ w
           @ (case og of None \<Rightarrow> [] | Some [] \<Rightarrow> [] | Some (c # cs) \<Rightarrow> '' ('' @ c # cs @ '')'')
           @ '': '' @ dfn_definition fd)
        # map (\<lambda>tr. ''   '' @ t_word tr @ '': '' @ t_definition tr) (dfn_translations fd)
   \<and> length (entry_lines i w og fd) = 1 + length (dfn_translations fd)
   \<and> ((og = None \<or> og = Some []) \<longleftrightarrow>
        hd (entry_lines i w og fd) = str_nat (i + 1) @ ''. '' @ w @ '': '' @ dfn_definition fd)"
proof (intro conjI impI)
  assume "t \<notin> {''view'', ''scraped_view''} \<and> (\<forall>r\<in>set (results d). wr_definitions r \<noteq> [])"
  then show "display_results (SearchResponse t d) =
        (summary_line (total_results d)
           # concat (map (\<lambda>(i, r).
               entry_lines i (wr_word r) (wr_origin r) (hd (wr_definitions r)))
               (enumerate 0 (results d))), None)"
    by (simp add: display_results_def word_result_loop_lines)
next
  assume "t \<notin> {''view'', ''scraped_view''}"
  then show "display_results (DefinitionResponse t dd) =
        (summary_line (total_results dd)
           # concat (map (\<lambda>(i, r).
               entry_lines i (dr_word r) (dr_origin r) (dr_definition_info r))
               (enumerate 0 (results dd))), None)"
    by (simp add: display_results_def definition_result_loop_lines)
next
  show "entry_lines i w og fd =
        (str_nat (i + 1) @ ''. '' @ w
           @ (case og of None \<Rightarrow> [] | Some [] \<Rightarrow> [] | Some (c # cs) \<Rightarrow> '' ('' @ c # cs @ '')'')
           @ '': '' @ dfn_definition fd)
        # map (\<lambda>tr. ''   '' @ t_word tr @ '': '' @ t_definition tr) (dfn_translations fd)"
    by (simp add: entry_lines_def split: option.splits list.splits)
next
  show "length (entry_lines i w og fd) = 1 + length (dfn_translations fd)"
    by (simp add: entry_lines_def)
next
  show "(og = None \<or> og = Some []) \<longleftrightarrow>
        hd (entry_lines i w og fd) = str_nat (i + 1) @ ''. '' @ w @ '': '' @ dfn_definition fd"
    by (cases og) (auto simp: entry_lines_def)
qed

theorem list_renderer_lines_witness:
  "display_results (SearchResponse ''word''
      \<lparr>total_results = 2, page = 1, per_page = 10,
       results =
         [\<lparr>wr_word = ''namu'', wr_origin = None, wr_definitions =
             [\<lparr>dfn_definition = ''d1'', dfn_translations =
                 [\<lparr>t_word = ''tree'', t_definition = ''a plant''\<rparr>,
                  \<lparr>t_word = ''wood'', t_definition = ''timber''\<rparr>]\<rparr>,
              \<lparr>dfn_definition = ''d2'', dfn_translations = []\<rparr>]\<rparr>,
          \<lparr>wr_word = ''gigye'', wr_origin = Some ''hanja'', wr_definitions =
             [\<lparr>dfn_definition = ''d3'', dfn_translations = []\<rparr>]\<rparr>]\<rparr>)
     = ([''Total Results: 2'', ''1. namu: d1'', ''   tree: a plant'', ''   wood: timber'',
         ''2. gigye (hanja): d3''], None)
   \<and> display_results (DefinitionResponse ''dfn''
      \<lparr>total_results = 1, page = 1, per_page = 10,
       results =
         [\<lparr>dr_word = ''namu'', dr_origin = Some [], dr_definition_info =
             \<lparr>dfn_definition = ''d1'', dfn_translations = []\<rparr>\<rparr>]\<rparr>)
     = ([''Total Results: 1'', ''1. namu: d1''], None)"
proof -
  have strs: "str_int 2 = ''2''" "str_int 1 = ''1''" "str_nat (Suc 0) = ''1''"
    "str_nat (Suc (Suc 0)) = ''2''"
    by (simp_all add: str_int_def str_nat.simps digit_chars_def)
  have e: "enumerate 0 [a, b] = [(0, a), (Suc 0, b)]" "enumerate 0 [a] = [(0, a)]" for a b :: 'a
    by (simp_all add: enumerate_eq_zip upt_rec)
  show ?thesis
    using list_renderer_lines [of "''word''"
        "\<lparr>total_results = 2, page = 1, per_page = 10,
       results =
         [\<lparr>wr_word = ''namu'', wr_origin = None, wr_definitions =
             [\<lparr>dfn_definition = ''d1'', dfn_translations =
                 [\<lparr>t_word = ''tree'', t_definition = ''a plant''\<rparr>,
                  \<lparr>t_word = ''wood'', t_definition = ''timber''\<rparr>]\<rparr>,
              \<lparr>dfn_definition = ''d2'', dfn_translations = []\<rparr>]\<rparr>,
          \<lparr>wr_word = ''gigye'', wr_origin = Some ''hanja'', wr_definitions =
             [\<lparr>dfn_definition = ''d3'', dfn_translations = []\<rparr>]\<rparr>]\<rparr>"]
      list_renderer_lines [of "''dfn''" _
        "\<lparr>total_results = 1, page = 1, per_page = 10,
       results =
         [\<lparr>dr_word = ''namu'', dr_origin = Some [], dr_definition_info =
             \<lparr>dfn_definition = ''d1'', dfn_translations = []\<rparr>\<rparr>]\<rparr>"]
    by (simp add: e summary_line_def entry_lines_def strs)
qed

section \<open>The driver and a raised domain error\<close>

lemma pagination_raise_first:
  "search 1 20 = Inl e \<Longrightarrow>
   pagination search = Some (Inl (e, pagination_init\<lparr>pg_requests := [(1, 20)]\<rparr>))"
  using pagination_loop_raise [of pagination_init search 20 e]
  by (simp add: pagination_def pagination_with_def pagination_init_def)


text \<open>With \<open>requests\<close> bound the handler is reached and the process ends by \<open>sys.exit\<close>.\<close>

lemma main_with_requests_bound:
  "''krdict'' \<in> set globals \<Longrightarrow> ''requests'' \<in> set globals \<Longrightarrow>
   main_with globals [Inl (KRDictException m)] = SystemExit m
   \<and> stderr_lines (main_with globals [Inl (KRDictException m)]) = [m]"
  by (simp add: main_with_def handler_classes_def lookup_global_def)



end
